theory Spec2Isabelle
  imports Main "HOL-Library.Word"
begin

section \<open>slabtop: the sort key, the terminal geometry and the refresh loop\<close>

text \<open>
  A shallow embedding of \<^verbatim>\<open>slabtop.c\<close>. The file-scope variables of the program and
  the locals of \<^verbatim>\<open>main\<close> are the fields of one record that every function takes and
  returns. What the program asks of its surroundings (the collector library, the
  terminal, the keyboard, signals) is an explicit input; what it does to them is an
  event appended to a trace.
\<close>

subsection \<open>Sort fields and the sort key\<close>

text \<open>The enumerators of \<^verbatim>\<open>enum slabnode_item\<close> that the program names.\<close>

datatype slabnode_item =
    PROCPS_SLABNODE_OBJS
  | PROCPS_SLABNODE_AOBJS
  | PROCPS_SLABNODE_USE
  | PROCPS_SLABNODE_OBJ_SIZE
  | PROCPS_SLABNODE_SLABS
  | PROCPS_SLABNODE_OBJS_PER_SLAB
  | PROCPS_SLABNODE_SIZE
  | PROCPS_SLABNODE_NAME
  | PROCPS_SLABNODE_PAGES_PER_SLAB
  | PROCPS_SLABNODE_ASLABS

definition DEFAULT_SORT :: slabnode_item where
  "DEFAULT_SORT = PROCPS_SLABNODE_OBJS"

text \<open>
  \<^verbatim>\<open>tolower\<close> of the C library, on a byte, as the "C" locale defines it: the
  twenty-six letters \<^verbatim>\<open>A\<close> to \<^verbatim>\<open>Z\<close> move to \<^verbatim>\<open>a\<close> to \<^verbatim>\<open>z\<close>, every other byte
  is returned as it is. (No locale maps a byte outside \<^verbatim>\<open>A\<close>..\<^verbatim>\<open>Z\<close> to one of the ten
  letters that \<^verbatim>\<open>set_sort_item\<close> tests.)
\<close>

definition tolower :: "char \<Rightarrow> char" where
  "tolower c =
     (if 65 \<le> (of_char c :: nat) \<and> (of_char c :: nat) \<le> 90
      then char_of ((of_char c :: nat) + 32) else c)"

text \<open>The \<^verbatim>\<open>switch\<close> of \<^verbatim>\<open>set_sort_item\<close>, its labels in the order of the source.\<close>

definition set_sort_item :: "char \<Rightarrow> slabnode_item" where
  "set_sort_item key =
     (let k = tolower key in
      if k = CHR ''n'' then PROCPS_SLABNODE_NAME
      else if k = CHR ''o'' then PROCPS_SLABNODE_OBJS
      else if k = CHR ''a'' then PROCPS_SLABNODE_AOBJS
      else if k = CHR ''s'' then PROCPS_SLABNODE_OBJ_SIZE
      else if k = CHR ''b'' then PROCPS_SLABNODE_OBJS_PER_SLAB
      else if k = CHR ''p'' then PROCPS_SLABNODE_PAGES_PER_SLAB
      else if k = CHR ''l'' then PROCPS_SLABNODE_SLABS
      else if k = CHR ''v'' then PROCPS_SLABNODE_ASLABS
      else if k = CHR ''c'' then PROCPS_SLABNODE_SIZE
      else if k = CHR ''u'' then PROCPS_SLABNODE_USE
      else DEFAULT_SORT)"

text \<open>
  The sort criteria that \<^verbatim>\<open>usage\<close> lists as valid, which are the labels of the
  \<^verbatim>\<open>switch\<close>; a byte is a recognized sort character when it is one of them in either
  case.
\<close>

definition sort_keys :: "char list" where
  "sort_keys = ''abclvnopsu''"

definition toupper :: "char \<Rightarrow> char" where
  "toupper c =
     (if 97 \<le> (of_char c :: nat) \<and> (of_char c :: nat) \<le> 122
      then char_of ((of_char c :: nat) - 32) else c)"

definition recognized :: "char \<Rightarrow> bool" where
  "recognized c \<longleftrightarrow> c \<in> set sort_keys \<or> c \<in> set (map toupper sort_keys)"

subsection \<open>Program state\<close>

text \<open>\<^verbatim>\<open>struct winsize\<close> (the two fields read) and what \<^verbatim>\<open>ioctl(TIOCGWINSZ)\<close> gives.\<close>

record winsize =
  ws_row :: "16 word"
  ws_col :: "16 word"

record ioctl_result =
  ioctl_ret :: int
  ioctl_ws :: winsize

text \<open>
  What the program does to its surroundings, in the order it does it. A \<^verbatim>\<open>line\<close> is
  one output call of the three printing functions; the five calls of
  \<^verbatim>\<open>print_summary\<close> are one \<open>Summary_lines\<close>, since their text (numbers formatted by
  \<^verbatim>\<open>printf\<close>) is not modelled. \<open>Details_line i\<close> is \<^verbatim>\<open>print_details(v[i])\<close>.
\<close>

datatype line = Summary_lines | Headings_line | Details_line int

datatype event =
    Printf line
  | Printw line
  | Xwarn string
  | Xerrx string
  | Usage bool
  | Version
  | Slabinfo_new
  | Chains_alloc
  | Chains_fill
  | Chains_sort int slabnode_item
  | Slabs_getchain
  | Slabinfo_unref
  | Tcgetattr
  | Tcsetattr
  | Initscr
  | Endwin
  | Resizeterm "16 word" "16 word"
  | Install_SIGWINCH
  | Install_SIGINT
  | Move
  | Attron
  | Attroff
  | Refresh
  | Select int
  | Read

text \<open>
  The file-scope variables \<^verbatim>\<open>Cols\<close>, \<^verbatim>\<open>Rows\<close> (unsigned short), \<^verbatim>\<open>Delay\<close> (long),
  \<^verbatim>\<open>Run_once\<close> (int), \<^verbatim>\<open>Sort_item\<close>, and the locals of \<^verbatim>\<open>main\<close>. No arithmetic is
  done on \<^verbatim>\<open>Delay\<close>, \<^verbatim>\<open>nr_slabs\<close> or \<^verbatim>\<open>rc\<close> that could overflow, so they are
  integers.
\<close>

record state =
  Cols :: "16 word"
  Rows :: "16 word"
  Delay :: int
  Run_once :: int
  Sort_item :: slabnode_item
  is_tty :: int
  nr_slabs :: int
  rc :: int
  old_rows :: "16 word"
  trace :: "event list"

definition EXIT_SUCCESS :: int where
  "EXIT_SUCCESS = 0"

definition EXIT_FAILURE :: int where
  "EXIT_FAILURE = 1"

definition initial :: state where
  "initial = \<lparr> Cols = 0, Rows = 0, Delay = 3, Run_once = 0, Sort_item = DEFAULT_SORT,
               is_tty = 0, nr_slabs = 0, rc = EXIT_SUCCESS, old_rows = 0, trace = [] \<rparr>"

definition emit :: "event \<Rightarrow> state \<Rightarrow> state" where
  "emit ev s = s\<lparr>trace := trace s @ [ev]\<rparr>"

text \<open>
  Modelled from the spec: \<^verbatim>\<open>xerrx\<close> and \<^verbatim>\<open>xwarn\<close> are macros of \<^verbatim>\<open>c.h\<close>, which is
  not among the sources. The specification calls the failures that the program hands
  to \<^verbatim>\<open>xerrx\<close> fatal, with a non-zero exit status, and the code gives \<^verbatim>\<open>xerrx\<close> an
  exit status and has no path for coming back from it (lines 296 to 300 go on to use
  what failed to be made): \<^verbatim>\<open>xerrx\<close> reports and exits with its first argument.
  \<^verbatim>\<open>xwarn\<close> reports and returns (lines 322 and 327 set \<^verbatim>\<open>rc\<close> after it).
  \<^verbatim>\<open>EXIT_SUCCESS\<close> and \<^verbatim>\<open>EXIT_FAILURE\<close> are the 0 and 1 of the C library.

  So a piece of the program ends in one of three ways: it falls through to the next
  statement, it leaves the loop by \<^verbatim>\<open>break\<close>, or the process exits there with a
  status.
\<close>

datatype flow =
    is_Next: Next (flow_state: state)
  | is_Break: Break (flow_state: state)
  | is_Exit: Exit (exit_status: int) (flow_state: state)

subsection \<open>Signal handlers\<close>

definition term_resize :: "ioctl_result \<Rightarrow> state \<Rightarrow> state" where
  "term_resize io s =
     (if ioctl_ret io \<noteq> - 1 \<and> 10 < uint (ws_row (ioctl_ws io))
      then s\<lparr>Cols := ws_col (ioctl_ws io), Rows := ws_row (ioctl_ws io)\<rparr>
      else s\<lparr>Cols := 80, Rows := 24\<rparr>)"

definition sigint_handler :: "state \<Rightarrow> state" where
  "sigint_handler s = s\<lparr>Delay := 0\<rparr>"

text \<open>
  A window-size signal carries what the \<^verbatim>\<open>ioctl\<close> of its handler will read. Signals
  arrive between the statements of the loop body, at the places \<open>point\<close> names, and
  window-size signals also between two rows of the frame (\<open>row_winch\<close> below): the
  row loop reads \<^verbatim>\<open>Rows\<close> at every test. \<^verbatim>\<open>Delay\<close> is read at lines 355 and 365
  only, so an interrupt that arrives while the rows are written does what one at
  \<open>At_wait\<close> does, and is placed there. The handlers of lines 310 and 311 are
  installed in interactive mode only, and runs of the one-shot mode in which a signal
  arrives are outside the model.
\<close>

datatype signal = SIGINT | SIGWINCH ioctl_result

fun handle :: "signal \<Rightarrow> state \<Rightarrow> state" where
  "handle SIGINT s = sigint_handler s"
| "handle (SIGWINCH io) s = term_resize io s"

fun deliver :: "signal list \<Rightarrow> state \<Rightarrow> state" where
  "deliver [] s = s"
| "deliver (x # xs) s = deliver xs (handle x s)"

datatype point = At_fill | At_sort | At_render | At_rows | At_wait | At_select | At_while

text \<open>
  What the surroundings answer during one pass of the loop body. \<open>row_winch i\<close> holds
  what the window-size signals read that arrive after row \<open>i\<close> of the frame is written
  and before the next test of the row loop.
\<close>

record cycle_env =
  sigs :: "point \<Rightarrow> signal list"
  row_winch :: "int \<Rightarrow> ioctl_result list"
  fill_ret :: int
  sort_ret :: bool
  getchain_ret :: int
  select_ret :: int
  read_ret :: int
  read_c :: char

definition arrive :: "cycle_env \<Rightarrow> point \<Rightarrow> state \<Rightarrow> state" where
  "arrive e p s = (if Run_once s \<noteq> 0 then s else deliver (sigs e p) s)"

subsection \<open>Options\<close>

text \<open>
  One value per return of \<^verbatim>\<open>getopt_long\<close>, with \<^verbatim>\<open>optarg\<close> where the option takes
  one; \<open>Opt_other\<close> is any return that reaches the \<^verbatim>\<open>default\<close> label.
  \<^verbatim>\<open>strtol_or_err\<close> is declared in \<^verbatim>\<open>strutils.h\<close>: it is a parameter, \<open>None\<close> where
  it reports the string as no number and exits with a failure status.
\<close>

datatype opt = Opt_d string | Opt_s string | Opt_o | Opt_V | Opt_h | Opt_other

definition usage :: "bool \<Rightarrow> state \<Rightarrow> (int \<times> state) + state" where
  "usage to_stderr s =
     Inl (if to_stderr then EXIT_FAILURE else EXIT_SUCCESS, emit (Usage to_stderr) s)"

text \<open>\<^verbatim>\<open>optarg[0]\<close>: the first byte of a C string, the terminating zero when it is empty.\<close>

definition first_byte :: "string \<Rightarrow> char" where
  "first_byte optarg = (case optarg of [] \<Rightarrow> CHR 0x00 | c # _ \<Rightarrow> c)"

fun parse_opt :: "(string \<Rightarrow> int option) \<Rightarrow> opt \<Rightarrow> state \<Rightarrow> (int \<times> state) + state" where
  "parse_opt strtol_or_err (Opt_d optarg) s =
     (case strtol_or_err optarg of
        None \<Rightarrow> Inl (EXIT_FAILURE, emit (Xerrx ''illegal delay'') s)
      | Some n \<Rightarrow>
          (let s = s\<lparr>Delay := n\<rparr> in
           if Delay s < 1
           then Inl (EXIT_FAILURE, emit (Xerrx ''delay must be positive integer'') s)
           else Inr s))"
| "parse_opt strtol_or_err (Opt_s optarg) s =
     Inr (s\<lparr>Sort_item := set_sort_item (first_byte optarg)\<rparr>)"
| "parse_opt strtol_or_err Opt_o s = Inr (s\<lparr>Run_once := 1, Delay := 0\<rparr>)"
| "parse_opt strtol_or_err Opt_V s = Inl (EXIT_SUCCESS, emit Version s)"
| "parse_opt strtol_or_err Opt_h s = usage False s"
| "parse_opt strtol_or_err Opt_other s = usage True s"

fun parse_opts :: "(string \<Rightarrow> int option) \<Rightarrow> opt list \<Rightarrow> state \<Rightarrow> (int \<times> state) + state" where
  "parse_opts strtol_or_err [] s = Inr s"
| "parse_opts strtol_or_err (x # xs) s =
     (case parse_opt strtol_or_err x s of
        Inl ex \<Rightarrow> Inl ex
      | Inr s' \<Rightarrow> parse_opts strtol_or_err xs s')"

subsection \<open>Printing\<close>

definition PRINT_line :: "line \<Rightarrow> state \<Rightarrow> state" where
  "PRINT_line l s = (if Run_once s \<noteq> 0 then emit (Printf l) s else emit (Printw l) s)"

definition print_summary :: "cycle_env \<Rightarrow> state \<Rightarrow> flow" where
  "print_summary e s =
     (let s = emit Slabs_getchain s in
      if getchain_ret e < 0
      then Exit EXIT_FAILURE (emit (Xerrx ''Error getting slab summary results'') s)
      else Next (PRINT_line Summary_lines s))"

definition print_headings :: "state \<Rightarrow> state" where
  "print_headings s = PRINT_line Headings_line s"

definition print_details :: "int \<Rightarrow> state \<Rightarrow> state" where
  "print_details i s = PRINT_line (Details_line i) s"

text \<open>Line 334: \<^verbatim>\<open>for (i = 0; i < nr_slabs; i++) print_details(v[i])\<close>, from \<open>i\<close> on.\<close>

function print_all :: "int \<Rightarrow> state \<Rightarrow> state" where
  "print_all i s = (if i < nr_slabs s then print_all (i + 1) (print_details i s) else s)"
  by pat_completeness auto
termination
  by (relation "measure (\<lambda>(i, s). nat (nr_slabs s - i))")
     (auto simp: print_details_def PRINT_line_def emit_def)

text \<open>
  Line 349: \<^verbatim>\<open>for (i = 0; i < Rows - 8 && i < nr_slabs; i++) print_details(v[i])\<close>,
  from \<open>i\<close> on. \<^verbatim>\<open>Rows\<close> is promoted to \<^verbatim>\<open>int\<close> before the subtraction. Every test
  reads the global \<^verbatim>\<open>Rows\<close> anew, and \<^verbatim>\<open>term_resize\<close> runs for each window-size
  signal that arrived since the row before.
\<close>

function print_rows :: "cycle_env \<Rightarrow> int \<Rightarrow> state \<Rightarrow> state" where
  "print_rows e i s =
     (if i < uint (Rows s) - 8 \<and> i < nr_slabs s
      then print_rows e (i + 1) (deliver (map SIGWINCH (row_winch e i)) (print_details i s))
      else s)"
  by pat_completeness auto
termination
proof (relation "measure (\<lambda>(e, i, s). nat (nr_slabs s - i))")
  show "wf (measure (\<lambda>(e :: cycle_env, i, s). nat (nr_slabs s - i)))"
    by simp
next
  fix e :: cycle_env and i :: int and s :: state
  assume c: "i < uint (Rows s) - 8 \<and> i < nr_slabs s"
  have h: "nr_slabs (handle x t) = nr_slabs t" for x t
    by (cases x) (simp_all add: term_resize_def sigint_handler_def)
  have d: "nr_slabs (deliver xs t) = nr_slabs t" for xs t
    by (induction xs arbitrary: t) (simp_all add: h)
  show "((e, i + 1, deliver (map SIGWINCH (row_winch e i)) (print_details i s)), (e, i, s))
          \<in> measure (\<lambda>(e, i, s). nat (nr_slabs s - i))"
    using c by (simp add: d print_details_def PRINT_line_def emit_def)
qed

declare print_all.simps [simp del]
declare print_rows.simps [simp del]

subsection \<open>The loop of \<^verbatim>\<open>main\<close>\<close>

text \<open>Lines 339 to 352: the frame of an interactive pass.\<close>

definition render :: "cycle_env \<Rightarrow> state \<Rightarrow> flow" where
  "render e s =
     (let s = arrive e At_render s;
          s = (if old_rows s \<noteq> Rows s
               then (emit (Resizeterm (Rows s) (Cols s)) s)\<lparr>old_rows := Rows s\<rparr>
               else s);
          s = emit Move s
      in case print_summary e s of
           Next s \<Rightarrow>
             (let s = emit Attroff (print_headings (emit Attron s));
                  s = print_rows e 0 (arrive e At_rows s)
              in Next (emit Refresh s))
         | r \<Rightarrow> r)"

text \<open>
  Lines 353 to 363: the bounded wait. \<^verbatim>\<open>select\<close> is given \<^verbatim>\<open>Delay\<close> as its timeout;
  a positive return means a byte can be read.
\<close>

definition wait_key :: "cycle_env \<Rightarrow> state \<Rightarrow> flow" where
  "wait_key e s =
     (let s = arrive e At_wait s;
          s = emit (Select (Delay s)) s;
          s = arrive e At_select s
      in if 0 < select_ret e
         then (let s = emit Read s
               in if read_ret e \<noteq> 1 \<or> (read_c e = CHR ''Q'' \<or> read_c e = CHR ''q'')
                  then Break s
                  else Next (s\<lparr>Sort_item := set_sort_item (read_c e)\<rparr>))
         else Next s)"

text \<open>Lines 320 to 329: the fetch and the sort of a pass.\<close>

definition fetch_sort :: "cycle_env \<Rightarrow> state \<Rightarrow> flow" where
  "fetch_sort e s =
     (let s = arrive e At_fill s;
          s = (emit Chains_fill s)\<lparr>nr_slabs := fill_ret e\<rparr>
      in if nr_slabs s < 0
         then Break ((emit (Xwarn ''Unable to get slabinfo node data'') s)\<lparr>rc := EXIT_FAILURE\<rparr>)
         else
           (let s = arrive e At_sort s;
                s = emit (Chains_sort (nr_slabs s) (Sort_item s)) s
            in if \<not> sort_ret e
               then Break ((emit (Xwarn ''Unable to sort slab nodes'') s)\<lparr>rc := EXIT_FAILURE\<rparr>)
               else Next s))"

text \<open>Lines 315 to 363: one pass of the loop body, up to the test of line 365.\<close>

definition cycle :: "cycle_env \<Rightarrow> state \<Rightarrow> flow" where
  "cycle e s =
     (case fetch_sort e s of
        Next s \<Rightarrow>
          if Run_once s \<noteq> 0
          then (case print_summary e s of
                  Next s \<Rightarrow> Break (print_all 0 (print_headings s))
                | r \<Rightarrow> r)
          else (case render e s of
                  Next s \<Rightarrow>
                    (case wait_key e s of
                       Next s \<Rightarrow> Next (arrive e At_while s)
                     | r \<Rightarrow> r)
                | r \<Rightarrow> r)
      | r \<Rightarrow> r)"

text \<open>
  \<^verbatim>\<open>do { ... } while (Delay)\<close>. The loop can run for ever; it consumes one
  \<open>cycle_env\<close> per pass, and \<open>None\<close> says that the passes given were all made and the
  loop has not ended.
\<close>

fun do_while :: "cycle_env list \<Rightarrow> state \<Rightarrow> flow option" where
  "do_while [] s = None"
| "do_while (e # es) s =
     (case cycle e s of
        Next s' \<Rightarrow> if Delay s' \<noteq> 0 then do_while es s' else Some (Next s')
      | r \<Rightarrow> Some r)"

subsection \<open>\<^verbatim>\<open>main\<close>\<close>

record start_env =
  opts :: "opt list"
  slabinfo_new_ret :: int
  chains_alloc_ret :: bool
  isatty_ret :: int
  tcgetattr_ret :: int
  winsize0 :: ioctl_result

text \<open>Lines 302 to 312.\<close>

definition init_screen :: "start_env \<Rightarrow> state \<Rightarrow> state" where
  "init_screen env s =
     (if Run_once s = 0
      then (let s = s\<lparr>is_tty := isatty_ret env\<rparr>;
                s = (if is_tty s \<noteq> 0
                     then (let s = emit Tcgetattr s
                           in if tcgetattr_ret env = - 1
                              then emit (Xwarn ''terminal setting retrieval'') s else s)
                     else s);
                s = s\<lparr>old_rows := Rows s\<rparr>;
                s = term_resize (winsize0 env) s;
                s = emit Initscr s;
                s = emit (Resizeterm (Rows s) (Cols s)) s
            in emit Install_SIGINT (emit Install_SIGWINCH s))
      else s)"

text \<open>Lines 367 to 373.\<close>

definition finish :: "state \<Rightarrow> state" where
  "finish s =
     (let s = (if Run_once s = 0
               then emit Endwin (if is_tty s \<noteq> 0 then emit Tcsetattr s else s)
               else s)
      in emit Slabinfo_unref s)"

text \<open>
  The process: \<open>Some (status, s)\<close> when it ends with that exit status in state \<open>s\<close>,
  \<open>None\<close> when the loop has not ended after the passes given.
\<close>

definition main :: "(string \<Rightarrow> int option) \<Rightarrow> start_env \<Rightarrow> cycle_env list \<Rightarrow> (int \<times> state) option" where
  "main strtol_or_err env es =
     (case parse_opts strtol_or_err (opts env) initial of
        Inl ex \<Rightarrow> Some ex
      | Inr s \<Rightarrow>
          (let s = emit Slabinfo_new s
           in if slabinfo_new_ret env < 0
              then Some (EXIT_FAILURE, emit (Xerrx ''Unable to create slabinfo structure'') s)
              else
                (let s = emit Chains_alloc s
                 in if \<not> chains_alloc_ret env
                    then Some (EXIT_FAILURE, emit (Xerrx ''Unable to allocate slabinfo nodes'') s)
                    else (case do_while es (init_screen env s) of
                            None \<Rightarrow> None
                          | Some (Exit n s) \<Rightarrow> Some (n, s)
                          | Some (Next s) \<Rightarrow> Some (rc (finish s), finish s)
                          | Some (Break s) \<Rightarrow> Some (rc (finish s), finish s)))))"

subsection \<open>Reading a trace\<close>

text \<open>The events that were added between an earlier state and a later one.\<close>

definition new_events :: "state \<Rightarrow> state \<Rightarrow> event list" where
  "new_events s s' = drop (length (trace s)) (trace s')"

fun is_line :: "event \<Rightarrow> bool" where
  "is_line (Printf l) = True"
| "is_line (Printw l) = True"
| "is_line _ = False"

fun is_details :: "event \<Rightarrow> bool" where
  "is_details (Printf (Details_line i)) = True"
| "is_details (Printw (Details_line i)) = True"
| "is_details _ = False"

fun is_select :: "event \<Rightarrow> bool" where
  "is_select (Select d) = True"
| "is_select _ = False"

definition fetches :: "state \<Rightarrow> nat" where
  "fetches s = length (filter (\<lambda>ev. ev = Chains_fill) (trace s))"

subsection \<open>Sample surroundings\<close>

text \<open>
  A terminal of 80 columns and 24 rows on standard input, a collector that works, no
  options; a pass in which the fetch reports \<open>n\<close> caches, no signal arrives and the
  wait times out; the same pass with one byte typed.
\<close>

definition tty_start :: start_env where
  "tty_start = \<lparr> opts = [], slabinfo_new_ret = 0, chains_alloc_ret = True, isatty_ret = 1,
                 tcgetattr_ret = 0,
                 winsize0 = \<lparr>ioctl_ret = 0, ioctl_ws = \<lparr>ws_row = 24, ws_col = 80\<rparr>\<rparr> \<rparr>"

definition quiet :: "point \<Rightarrow> signal list" where
  "quiet p = []"

definition calm :: "int \<Rightarrow> ioctl_result list" where
  "calm i = []"

definition timeout_pass :: "int \<Rightarrow> cycle_env" where
  "timeout_pass n = \<lparr> sigs = quiet, row_winch = calm, fill_ret = n, sort_ret = True,
                      getchain_ret = 0, select_ret = 0, read_ret = 0, read_c = CHR 0x00 \<rparr>"

definition key_pass :: "int \<Rightarrow> char \<Rightarrow> cycle_env" where
  "key_pass n c = (timeout_pass n)\<lparr>select_ret := 1, read_ret := 1, read_c := c\<rparr>"

text \<open>A pass in which the wait times out and the interrupt arrives during the wait.\<close>

definition sigint_pass :: "int \<Rightarrow> cycle_env" where
  "sigint_pass n = (timeout_pass n)\<lparr>sigs := quiet(At_select := [SIGINT])\<rparr>"

text \<open>
  A terminal of 132 columns and 50 rows, and what a window-size signal reads after the
  window was made \<open>r\<close> rows high. A pass in which the window is made 40 rows high
  before the frame is drawn; a pass in which it is made 11 rows high after row 4 of
  the frame was written.
\<close>

definition big_start :: start_env where
  "big_start = tty_start\<lparr>winsize0 := \<lparr>ioctl_ret = 0, ioctl_ws = \<lparr>ws_row = 50, ws_col = 132\<rparr>\<rparr>\<rparr>"

definition resized_to :: "16 word \<Rightarrow> ioctl_result" where
  "resized_to r = \<lparr>ioctl_ret = 0, ioctl_ws = \<lparr>ws_row = r, ws_col = 132\<rparr>\<rparr>"

definition winch_pass :: "int \<Rightarrow> cycle_env" where
  "winch_pass n = (timeout_pass n)\<lparr>sigs := quiet(At_sort := [SIGWINCH (resized_to 40)])\<rparr>"

definition shrink_pass :: "int \<Rightarrow> cycle_env" where
  "shrink_pass n = (timeout_pass n)\<lparr>row_winch := calm(4 := [resized_to 11])\<rparr>"

text \<open>\<^verbatim>\<open>strtol_or_err\<close> on the few strings the samples use.\<close>

definition sample_strtol :: "string \<Rightarrow> int option" where
  "sample_strtol str =
     (if str = ''1'' then Some 1 else if str = ''5'' then Some 5
      else if str = ''0'' then Some 0 else None)"


section \<open>Properties\<close>

subsection \<open>The sort key\<close>

lemma tolower_eq_lower:
  assumes "97 \<le> (of_char k :: nat)" and "(of_char k :: nat) \<le> 122"
  shows "tolower c = k \<longleftrightarrow> c = k \<or> (of_char c :: nat) + 32 = of_char k"
proof (cases "65 \<le> (of_char c :: nat) \<and> (of_char c :: nat) \<le> 90")
  case True
  then have ne: "c \<noteq> k" using assms by auto
  from True have "(of_char c + 32 :: nat) mod 256 = of_char c + 32" by simp
  then have "char_of ((of_char c :: nat) + 32) = k \<longleftrightarrow> (of_char c :: nat) + 32 = of_char k"
    by (simp add: char_of_eq_iff take_bit_eq_mod)
  with True ne show ?thesis by (simp add: tolower_def)
next
  case False
  with assms show ?thesis by (auto simp: tolower_def)
qed

lemma sort_keys_lower:
  "k \<in> set sort_keys \<Longrightarrow> 97 \<le> (of_char k :: nat) \<and> (of_char k :: nat) \<le> 122"
  by (auto simp: sort_keys_def)

lemma tolower_key_recognized:
  assumes "tolower c = k" and "k \<in> set sort_keys"
  shows "recognized c"
proof -
  note b = sort_keys_lower [OF assms(2)]
  from assms(1) b have "c = k \<or> (of_char c :: nat) + 32 = of_char k"
    by (simp add: tolower_eq_lower)
  then show ?thesis
  proof
    assume "c = k"
    with assms(2) show ?thesis by (simp add: recognized_def)
  next
    assume "(of_char c :: nat) + 32 = of_char k"
    then have "(of_char k :: nat) - 32 = of_char c" by simp
    with b have "toupper k = c" by (simp add: toupper_def)
    with assms(2) show ?thesis by (auto simp: recognized_def)
  qed
qed

lemma set_sort_item_unrecognized:
  assumes "\<not> recognized c"
  shows "set_sort_item c = DEFAULT_SORT"
proof -
  have "tolower c \<notin> set sort_keys"
    using assms tolower_key_recognized by blast
  then show ?thesis
    by (simp add: set_sort_item_def sort_keys_def)
qed

lemma tolower_toupper: "tolower (toupper c) = tolower c"
proof (cases "97 \<le> (of_char c :: nat) \<and> (of_char c :: nat) \<le> 122")
  case True
  then have m: "((of_char c :: nat) - 32) mod 256 = of_char c - 32" by auto
  from True have "tolower c = c" by (auto simp: tolower_def)
  moreover from True m have "tolower (toupper c) = c"
    by (auto simp: tolower_def toupper_def of_char_of)
  ultimately show ?thesis by simp
next
  case False
  then show ?thesis by (auto simp: toupper_def)
qed

lemma tolower_idem: "tolower (tolower c) = tolower c"
proof (cases "65 \<le> (of_char c :: nat) \<and> (of_char c :: nat) \<le> 90")
  case True
  then have "((of_char c :: nat) + 32) mod 256 = of_char c + 32" by simp
  with True show ?thesis by (auto simp: tolower_def of_char_of)
next
  case False
  then show ?thesis by (auto simp: tolower_def)
qed

lemma toupper_sort_keys: "map toupper sort_keys = ''ABCLVNOPSU''"
  by code_simp

lemma recognized_iff: "recognized c \<longleftrightarrow> c \<in> set ''abclvnopsuABCLVNOPSU''"
  unfolding recognized_def toupper_sort_keys by (auto simp: sort_keys_def)

text \<open>
  C4. \<^verbatim>\<open>set_sort_item\<close> is a function of the byte alone, defined on every byte. It
  folds case before it matches: the upper-case and the lower-case form of any byte,
  hence of every recognized sort character, resolve to the same field. A byte that is
  not a recognized sort character in either case (a control character, a digit,
  punctuation, a byte above 127) resolves to the default field.
\<close>

theorem set_sort_item_resolve:
  "set_sort_item (toupper c) = set_sort_item (tolower c) \<and>
   (\<not> recognized c \<longrightarrow> set_sort_item c = DEFAULT_SORT)"
proof -
  have "set_sort_item (toupper c) = set_sort_item (tolower c)"
    by (simp add: set_sort_item_def tolower_toupper tolower_idem)
  then show ?thesis
    by (simp add: set_sort_item_unrecognized)
qed

theorem set_sort_item_resolve_witness:
  "\<not> recognized CHR ''7'' \<and> set_sort_item CHR ''7'' = PROCPS_SLABNODE_OBJS \<and>
   set_sort_item CHR ''N'' = set_sort_item CHR ''n'' \<and>
   set_sort_item CHR ''n'' = PROCPS_SLABNODE_NAME"
proof -
  have nr: "\<not> recognized CHR ''7''"
    by (simp add: recognized_iff)
  have up: "toupper CHR ''n'' = CHR ''N''" and low: "tolower CHR ''n'' = CHR ''n''"
    by (simp_all add: toupper_def tolower_def char_of_eq_iff)
  have nm: "set_sort_item CHR ''n'' = PROCPS_SLABNODE_NAME"
    by (simp add: set_sort_item_def tolower_def)
  from set_sort_item_resolve [of "CHR ''7''"] nr
  have "set_sort_item CHR ''7'' = PROCPS_SLABNODE_OBJS"
    by (simp add: DEFAULT_SORT_def)
  moreover from set_sort_item_resolve [of "CHR ''n''"]
  have "set_sort_item CHR ''N'' = set_sort_item CHR ''n''"
    by (simp add: up low)
  ultimately show ?thesis using nr nm by simp
qed

subsection \<open>The terminal geometry\<close>

text \<open>
  C3. Every call of \<^verbatim>\<open>term_resize\<close>: when the size query fails (returns -1) or
  reports ten rows or fewer, the geometry becomes 80 columns and 24 rows; otherwise it
  becomes the columns and rows reported. Nothing else in the state changes. A query
  that reports 5 rows gives (80, 24).
\<close>

theorem term_resize_geometry:
  "(ioctl_ret io = - 1 \<or> uint (ws_row (ioctl_ws io)) \<le> 10 \<longrightarrow>
      term_resize io s = s\<lparr>Cols := 80, Rows := 24\<rparr>) \<and>
   (ioctl_ret io \<noteq> - 1 \<and> 10 < uint (ws_row (ioctl_ws io)) \<longrightarrow>
      term_resize io s = s\<lparr>Cols := ws_col (ioctl_ws io), Rows := ws_row (ioctl_ws io)\<rparr>) \<and>
   (ws_row (ioctl_ws io) = 5 \<longrightarrow>
      Cols (term_resize io s) = 80 \<and> Rows (term_resize io s) = 24)"
  by (auto simp: term_resize_def)

theorem term_resize_geometry_witness:
  "uint (ws_row (ioctl_ws \<lparr>ioctl_ret = 0, ioctl_ws = \<lparr>ws_row = 5, ws_col = 132\<rparr>\<rparr>)) \<le> 10 \<and>
   term_resize \<lparr>ioctl_ret = 0, ioctl_ws = \<lparr>ws_row = 5, ws_col = 132\<rparr>\<rparr> initial
     = initial\<lparr>Cols := 80, Rows := 24\<rparr> \<and>
   term_resize \<lparr>ioctl_ret = - 1, ioctl_ws = \<lparr>ws_row = 50, ws_col = 132\<rparr>\<rparr> initial
     = initial\<lparr>Cols := 80, Rows := 24\<rparr> \<and>
   term_resize \<lparr>ioctl_ret = 0, ioctl_ws = \<lparr>ws_row = 50, ws_col = 132\<rparr>\<rparr> initial
     = initial\<lparr>Cols := 132, Rows := 50\<rparr>"
  using term_resize_geometry [of "\<lparr>ioctl_ret = 0, ioctl_ws = \<lparr>ws_row = 5, ws_col = 132\<rparr>\<rparr>" initial]
    term_resize_geometry [of "\<lparr>ioctl_ret = - 1, ioctl_ws = \<lparr>ws_row = 50, ws_col = 132\<rparr>\<rparr>" initial]
    term_resize_geometry [of "\<lparr>ioctl_ret = 0, ioctl_ws = \<lparr>ws_row = 50, ws_col = 132\<rparr>\<rparr>" initial]
  by simp

subsection \<open>Signals and the row loops\<close>

lemma handle_fields [simp]:
  "Run_once (handle x s) = Run_once s"
  "Sort_item (handle x s) = Sort_item s"
  "is_tty (handle x s) = is_tty s"
  "nr_slabs (handle x s) = nr_slabs s"
  "rc (handle x s) = rc s"
  "old_rows (handle x s) = old_rows s"
  "trace (handle x s) = trace s"
  by (cases x; simp add: term_resize_def sigint_handler_def)+

lemma deliver_fields [simp]:
  "Run_once (deliver xs s) = Run_once s"
  "Sort_item (deliver xs s) = Sort_item s"
  "is_tty (deliver xs s) = is_tty s"
  "nr_slabs (deliver xs s) = nr_slabs s"
  "rc (deliver xs s) = rc s"
  "old_rows (deliver xs s) = old_rows s"
  "trace (deliver xs s) = trace s"
  by (induction xs arbitrary: s; simp)+

lemma Delay_handle: "Delay (handle x s) = (if x = SIGINT then 0 else Delay s)"
  by (cases x) (simp_all add: term_resize_def sigint_handler_def)

lemma Delay_deliver: "Delay (deliver xs s) = (if SIGINT \<in> set xs then 0 else Delay s)"
  by (induction xs arbitrary: s) (auto simp: Delay_handle sigint_handler_def)

lemma Rows_handle: "10 < uint (Rows s) \<Longrightarrow> 10 < uint (Rows (handle x s))"
  by (cases x) (simp_all add: term_resize_def sigint_handler_def)

lemma Rows_deliver: "10 < uint (Rows s) \<Longrightarrow> 10 < uint (Rows (deliver xs s))"
  by (induction xs arbitrary: s) (simp_all add: Rows_handle)

lemma handle_upd:
  "handle x (s\<lparr>trace := t\<rparr>) = (handle x s)\<lparr>trace := t\<rparr>"
  "handle x (s\<lparr>nr_slabs := n\<rparr>) = (handle x s)\<lparr>nr_slabs := n\<rparr>"
  "handle x (s\<lparr>old_rows := r\<rparr>) = (handle x s)\<lparr>old_rows := r\<rparr>"
  "handle x (s\<lparr>Sort_item := k\<rparr>) = (handle x s)\<lparr>Sort_item := k\<rparr>"
  "handle x (s\<lparr>rc := n\<rparr>) = (handle x s)\<lparr>rc := n\<rparr>"
  by (cases x; simp add: term_resize_def sigint_handler_def)+

lemma deliver_upd:
  "deliver xs (s\<lparr>trace := t\<rparr>) = (deliver xs s)\<lparr>trace := t\<rparr>"
  "deliver xs (s\<lparr>nr_slabs := n\<rparr>) = (deliver xs s)\<lparr>nr_slabs := n\<rparr>"
  "deliver xs (s\<lparr>old_rows := r\<rparr>) = (deliver xs s)\<lparr>old_rows := r\<rparr>"
  "deliver xs (s\<lparr>Sort_item := k\<rparr>) = (deliver xs s)\<lparr>Sort_item := k\<rparr>"
  "deliver xs (s\<lparr>rc := n\<rparr>) = (deliver xs s)\<lparr>rc := n\<rparr>"
  by (induction xs arbitrary: s; simp add: handle_upd)+

lemma Delay_winch [simp]: "Delay (deliver (map SIGWINCH ios) s) = Delay s"
  by (auto simp: Delay_deliver)

lemma print_details_fields [simp]:
  "Cols (print_details i s) = Cols s"
  "Rows (print_details i s) = Rows s"
  "Delay (print_details i s) = Delay s"
  "Run_once (print_details i s) = Run_once s"
  "Sort_item (print_details i s) = Sort_item s"
  "is_tty (print_details i s) = is_tty s"
  "nr_slabs (print_details i s) = nr_slabs s"
  "rc (print_details i s) = rc s"
  "old_rows (print_details i s) = old_rows s"
  "trace (print_details i s) =
     trace s @ [if Run_once s \<noteq> 0 then Printf (Details_line i) else Printw (Details_line i)]"
  by (simp_all add: print_details_def PRINT_line_def emit_def)

lemma print_rows_Delay [simp]: "Delay (print_rows e i s) = Delay s"
proof (induction e i s rule: print_rows.induct)
  case (1 e i s)
  then show ?case by (subst print_rows.simps) simp
qed

lemma print_rows_Run_once [simp]: "Run_once (print_rows e i s) = Run_once s"
proof (induction e i s rule: print_rows.induct)
  case (1 e i s)
  then show ?case by (subst print_rows.simps) simp
qed

lemma print_rows_Sort_item [simp]: "Sort_item (print_rows e i s) = Sort_item s"
proof (induction e i s rule: print_rows.induct)
  case (1 e i s)
  then show ?case by (subst print_rows.simps) simp
qed

lemma print_rows_is_tty [simp]: "is_tty (print_rows e i s) = is_tty s"
proof (induction e i s rule: print_rows.induct)
  case (1 e i s)
  then show ?case by (subst print_rows.simps) simp
qed

lemma print_rows_nr_slabs [simp]: "nr_slabs (print_rows e i s) = nr_slabs s"
proof (induction e i s rule: print_rows.induct)
  case (1 e i s)
  then show ?case by (subst print_rows.simps) simp
qed

lemma print_rows_rc [simp]: "rc (print_rows e i s) = rc s"
proof (induction e i s rule: print_rows.induct)
  case (1 e i s)
  then show ?case by (subst print_rows.simps) simp
qed

lemma print_rows_old_rows [simp]: "old_rows (print_rows e i s) = old_rows s"
proof (induction e i s rule: print_rows.induct)
  case (1 e i s)
  then show ?case by (subst print_rows.simps) simp
qed

lemma Rows_print_rows: "10 < uint (Rows s) \<Longrightarrow> 10 < uint (Rows (print_rows e i s))"
proof (induction e i s rule: print_rows.induct)
  case (1 e i s)
  show ?case
  proof (cases "i < uint (Rows s) - 8 \<and> i < nr_slabs s")
    case True
    have "10 < uint (Rows (deliver (map SIGWINCH (row_winch e i)) (print_details i s)))"
      using "1.prems" by (intro Rows_deliver) simp
    with True "1.IH" show ?thesis
      by (subst print_rows.simps) simp
  next
    case False
    with "1.prems" show ?thesis
      by (subst print_rows.simps) auto
  qed
qed

text \<open>
  The rows that the loop writes from \<open>i\<close> on are \<open>i\<close>, \<open>i + 1\<close>, ... up to some \<open>k\<close>:
  at most to the count of caches, at least to where the test fails for the \<^verbatim>\<open>Rows\<close>
  that the loop ends with, and exactly to the smaller of \<^verbatim>\<open>Rows - 8\<close> and the count
  when no window-size signal arrives between the rows.
\<close>

lemma print_rows_shape:
  assumes "Run_once s = 0"
  shows "\<exists>k. i \<le> k \<and> k \<le> max i (nr_slabs s) \<and>
           min (uint (Rows (print_rows e i s)) - 8) (nr_slabs s) \<le> k \<and>
           ((\<forall>j. row_winch e j = []) \<longrightarrow>
              k = max i (min (uint (Rows s) - 8) (nr_slabs s)) \<and>
              Rows (print_rows e i s) = Rows s \<and> Cols (print_rows e i s) = Cols s) \<and>
           trace (print_rows e i s) = trace s @ map (\<lambda>j. Printw (Details_line j)) [i..k - 1]"
  using assms
proof (induction e i s rule: print_rows.induct)
  case (1 e i s)
  show ?case
  proof (cases "i < uint (Rows s) - 8 \<and> i < nr_slabs s")
    case False
    then have "print_rows e i s = s"
      by (subst print_rows.simps) auto
    moreover have "[i..i - 1] = []"
      by simp
    ultimately show ?thesis
      using False by (intro exI [of _ i]) auto
  next
    case True
    let ?s' = "deliver (map SIGWINCH (row_winch e i)) (print_details i s)"
    have p: "print_rows e i s = print_rows e (i + 1) ?s'"
      using True by (subst print_rows.simps) simp
    have "Run_once ?s' = 0"
      using "1.prems" by simp
    from "1.IH" [OF True this] obtain k where k: "i + 1 \<le> k" "k \<le> max (i + 1) (nr_slabs s)"
      "min (uint (Rows (print_rows e (i + 1) ?s')) - 8) (nr_slabs s) \<le> k"
      "(\<forall>j. row_winch e j = []) \<longrightarrow>
         k = max (i + 1) (min (uint (Rows ?s') - 8) (nr_slabs s)) \<and>
         Rows (print_rows e (i + 1) ?s') = Rows ?s' \<and> Cols (print_rows e (i + 1) ?s') = Cols ?s'"
      "trace (print_rows e (i + 1) ?s') = trace ?s' @ map (\<lambda>j. Printw (Details_line j)) [i + 1..k - 1]"
      by auto
    have u: "[i..k - 1] = i # [i + 1..k - 1]"
      using k(1) by (simp add: upto_rec1)
    have t: "trace ?s' = trace s @ [Printw (Details_line i)]"
      using "1.prems" by simp
    have c: "(\<forall>j. row_winch e j = []) \<longrightarrow> ?s' = print_details i s"
      by simp
    show ?thesis
    proof (intro exI [of _ k] conjI impI)
      show "i \<le> k" using k(1) by simp
      show "k \<le> max i (nr_slabs s)" using k(2) True by simp
      show "min (uint (Rows (print_rows e i s)) - 8) (nr_slabs s) \<le> k"
        using k(3) by (simp add: p)
      show "trace (print_rows e i s) = trace s @ map (\<lambda>j. Printw (Details_line j)) [i..k - 1]"
        using k(5) "1.prems" by (simp add: p t u)
    next
      assume q: "\<forall>j. row_winch e j = []"
      with c have s': "?s' = print_details i s" by simp
      from q k(4) True show "k = max i (min (uint (Rows s) - 8) (nr_slabs s))"
        by (simp add: s')
      from q k(4) show "Rows (print_rows e i s) = Rows s" "Cols (print_rows e i s) = Cols s"
        by (simp_all add: p s')
    qed
  qed
qed

lemma print_all_eq:
  "print_all i s =
     s\<lparr>trace := trace s @
        map (\<lambda>k. if Run_once s \<noteq> 0 then Printf (Details_line k) else Printw (Details_line k))
          [i..nr_slabs s - 1]\<rparr>"
proof (induction i s rule: print_all.induct)
  case (1 i s)
  show ?case
  proof (cases "i < nr_slabs s")
    case True
    then have "[i..nr_slabs s - 1] = i # [i + 1..nr_slabs s - 1]"
      by (simp add: upto_rec1)
    with True "1.IH" show ?thesis
      by (subst print_all.simps) (simp add: print_details_def PRINT_line_def emit_def)
  next
    case False
    then have "[i..nr_slabs s - 1] = []"
      by auto
    with False show ?thesis
      by (subst print_all.simps) auto
  qed
qed

subsection \<open>The stages of a pass\<close>

lemma emit_fields [simp]:
  "Cols (emit ev s) = Cols s"
  "Rows (emit ev s) = Rows s"
  "Delay (emit ev s) = Delay s"
  "Run_once (emit ev s) = Run_once s"
  "Sort_item (emit ev s) = Sort_item s"
  "is_tty (emit ev s) = is_tty s"
  "nr_slabs (emit ev s) = nr_slabs s"
  "rc (emit ev s) = rc s"
  "old_rows (emit ev s) = old_rows s"
  "trace (emit ev s) = trace s @ [ev]"
  by (simp_all add: emit_def)

lemma arrive_fields [simp]:
  "Run_once (arrive e p s) = Run_once s"
  "Sort_item (arrive e p s) = Sort_item s"
  "is_tty (arrive e p s) = is_tty s"
  "nr_slabs (arrive e p s) = nr_slabs s"
  "rc (arrive e p s) = rc s"
  "old_rows (arrive e p s) = old_rows s"
  "trace (arrive e p s) = trace s"
  by (simp_all add: arrive_def)

lemma Delay_arrive:
  "Delay (arrive e p s) = (if Run_once s = 0 \<and> SIGINT \<in> set (sigs e p) then 0 else Delay s)"
  by (simp add: arrive_def Delay_deliver)

lemma PRINT_line_fields [simp]:
  "Cols (PRINT_line l s) = Cols s"
  "Rows (PRINT_line l s) = Rows s"
  "Delay (PRINT_line l s) = Delay s"
  "Run_once (PRINT_line l s) = Run_once s"
  "Sort_item (PRINT_line l s) = Sort_item s"
  "is_tty (PRINT_line l s) = is_tty s"
  "nr_slabs (PRINT_line l s) = nr_slabs s"
  "rc (PRINT_line l s) = rc s"
  "old_rows (PRINT_line l s) = old_rows s"
  "trace (PRINT_line l s) = trace s @ [if Run_once s \<noteq> 0 then Printf l else Printw l]"
  by (simp_all add: PRINT_line_def)

lemma print_all_fields [simp]:
  "Cols (print_all i s) = Cols s"
  "Rows (print_all i s) = Rows s"
  "Delay (print_all i s) = Delay s"
  "Run_once (print_all i s) = Run_once s"
  "Sort_item (print_all i s) = Sort_item s"
  "is_tty (print_all i s) = is_tty s"
  "nr_slabs (print_all i s) = nr_slabs s"
  "rc (print_all i s) = rc s"
  "old_rows (print_all i s) = old_rows s"
  by (simp_all add: print_all_eq)

lemma trace_print_all:
  "trace (print_all i s) = trace s @
     map (\<lambda>k. if Run_once s \<noteq> 0 then Printf (Details_line k) else Printw (Details_line k))
       [i..nr_slabs s - 1]"
  by (simp add: print_all_eq)

lemma arrive_commute:
  "arrive e p (emit ev s) = emit ev (arrive e p s)"
  "arrive e p (PRINT_line l s) = PRINT_line l (arrive e p s)"
  "arrive e p (s\<lparr>nr_slabs := n\<rparr>) = (arrive e p s)\<lparr>nr_slabs := n\<rparr>"
  "arrive e p (s\<lparr>old_rows := r\<rparr>) = (arrive e p s)\<lparr>old_rows := r\<rparr>"
  "arrive e p (s\<lparr>rc := n\<rparr>) = (arrive e p s)\<lparr>rc := n\<rparr>"
  "arrive e p (s\<lparr>Sort_item := k\<rparr>) = (arrive e p s)\<lparr>Sort_item := k\<rparr>"
  by (simp_all add: arrive_def emit_def PRINT_line_def deliver_upd)

paragraph \<open>The fetch and the sort\<close>

lemma fetch_sort_kind [simp]:
  "is_Next (fetch_sort e s) \<longleftrightarrow> 0 \<le> fill_ret e \<and> sort_ret e"
  "is_Break (fetch_sort e s) \<longleftrightarrow> fill_ret e < 0 \<or> \<not> sort_ret e"
  by (auto simp: fetch_sort_def Let_def)

lemma fetch_sort_fields [simp]:
  "Run_once (flow_state (fetch_sort e s)) = Run_once s"
  "Sort_item (flow_state (fetch_sort e s)) = Sort_item s"
  "is_tty (flow_state (fetch_sort e s)) = is_tty s"
  "old_rows (flow_state (fetch_sort e s)) = old_rows s"
  "nr_slabs (flow_state (fetch_sort e s)) = fill_ret e"
  "rc (flow_state (fetch_sort e s)) =
     (if fill_ret e < 0 \<or> \<not> sort_ret e then EXIT_FAILURE else rc s)"
  by (auto simp: fetch_sort_def Let_def)

lemma Delay_fetch_sort:
  "Delay (flow_state (fetch_sort e s)) =
     (if Run_once s = 0 \<and> (SIGINT \<in> set (sigs e At_fill) \<or>
           0 \<le> fill_ret e \<and> SIGINT \<in> set (sigs e At_sort))
      then 0 else Delay s)"
  by (auto simp: fetch_sort_def Let_def Delay_arrive)

lemma arrive_fetch_sort:
  "0 \<le> fill_ret e \<Longrightarrow>
   Rows (arrive e' p (flow_state (fetch_sort e s))) = Rows (arrive e' p (arrive e At_sort (arrive e At_fill s)))"
  "0 \<le> fill_ret e \<Longrightarrow>
   Cols (arrive e' p (flow_state (fetch_sort e s))) = Cols (arrive e' p (arrive e At_sort (arrive e At_fill s)))"
  by (auto simp: fetch_sort_def Let_def arrive_commute)

lemma trace_fetch_sort:
  "trace (flow_state (fetch_sort e s)) =
     trace s @ Chains_fill #
       (if fill_ret e < 0 then [Xwarn ''Unable to get slabinfo node data'']
        else Chains_sort (fill_ret e) (Sort_item s) #
          (if sort_ret e then [] else [Xwarn ''Unable to sort slab nodes'']))"
  by (auto simp: fetch_sort_def Let_def)


paragraph \<open>The frame\<close>

lemma render_kind [simp]:
  "is_Next (render e s) \<longleftrightarrow> 0 \<le> getchain_ret e"
  "is_Break (render e s) \<longleftrightarrow> False"
  "getchain_ret e < 0 \<Longrightarrow> exit_status (render e s) = EXIT_FAILURE"
  by (auto simp: render_def print_summary_def Let_def)

lemma render_fields [simp]:
  "Run_once (flow_state (render e s)) = Run_once s"
  "Sort_item (flow_state (render e s)) = Sort_item s"
  "is_tty (flow_state (render e s)) = is_tty s"
  "nr_slabs (flow_state (render e s)) = nr_slabs s"
  "rc (flow_state (render e s)) = rc s"
  by (simp_all add: render_def print_summary_def print_headings_def Let_def)

lemma Delay_render:
  "Delay (flow_state (render e s)) =
     (if Run_once s = 0 \<and> (SIGINT \<in> set (sigs e At_render) \<or>
           0 \<le> getchain_ret e \<and> SIGINT \<in> set (sigs e At_rows))
      then 0 else Delay s)"
  by (auto simp: render_def print_summary_def print_headings_def Let_def Delay_arrive)

text \<open>
  The events of a frame. \<open>k\<close> is where the row loop stopped; \<^verbatim>\<open>Rows\<close> is read before
  the loop for the upper line and when the frame is flushed for the lower one.
\<close>

lemma trace_render:
  assumes "Run_once s = 0"
  shows "\<exists>k. 0 \<le> k \<and> k \<le> max 0 (nr_slabs s) \<and>
     (0 \<le> getchain_ret e \<longrightarrow>
        min (uint (Rows (flow_state (render e s))) - 8) (nr_slabs s) \<le> k) \<and>
     ((\<forall>j. row_winch e j = []) \<longrightarrow>
        k = max 0 (min (uint (Rows (arrive e At_rows (arrive e At_render s))) - 8) (nr_slabs s))) \<and>
     trace (flow_state (render e s)) =
       trace s @
       (if old_rows s \<noteq> Rows (arrive e At_render s)
        then [Resizeterm (Rows (arrive e At_render s)) (Cols (arrive e At_render s))] else []) @
       [Move, Slabs_getchain] @
       (if getchain_ret e < 0 then [Xerrx ''Error getting slab summary results'']
        else [Printw Summary_lines, Attron, Printw Headings_line, Attroff] @
             map (\<lambda>j. Printw (Details_line j)) [0..k - 1] @ [Refresh])"
proof -
  let ?a = "arrive e At_render s"
  define c where "c = arrive e At_rows
      (emit Attroff (print_headings (emit Attron (PRINT_line Summary_lines
        (emit Slabs_getchain (emit Move
          (if old_rows ?a \<noteq> Rows ?a
           then (emit (Resizeterm (Rows ?a) (Cols ?a)) ?a)\<lparr>old_rows := Rows ?a\<rparr>
           else ?a)))))))"
  have rc: "Run_once c = 0"
    using assms by (simp add: c_def print_headings_def)
  have Rc: "Rows c = Rows (arrive e At_rows ?a)" and nc: "nr_slabs c = nr_slabs s"
    by (simp_all add: c_def print_headings_def arrive_commute)
  have tc: "trace c = trace s @
       (if old_rows s \<noteq> Rows ?a then [Resizeterm (Rows ?a) (Cols ?a)] else []) @
       [Move, Slabs_getchain, Printw Summary_lines, Attron, Printw Headings_line, Attroff]"
    using assms by (simp add: c_def print_headings_def)
  from print_rows_shape [OF rc, of 0 e] obtain k where k: "0 \<le> k" "k \<le> max 0 (nr_slabs s)"
    "min (uint (Rows (print_rows e 0 c)) - 8) (nr_slabs s) \<le> k"
    "(\<forall>j. row_winch e j = []) \<longrightarrow> k = max 0 (min (uint (Rows c) - 8) (nr_slabs s))"
    "trace (print_rows e 0 c) = trace c @ map (\<lambda>j. Printw (Details_line j)) [0..k - 1]"
    unfolding nc by blast
  show ?thesis
  proof (cases "getchain_ret e < 0")
    case True
    then have "trace (flow_state (render e s)) = trace s @
       (if old_rows s \<noteq> Rows ?a then [Resizeterm (Rows ?a) (Cols ?a)] else []) @
       [Move, Slabs_getchain, Xerrx ''Error getting slab summary results'']"
      by (simp add: render_def print_summary_def Let_def)
    with True k(1,2,4) show ?thesis
      unfolding Rc by (intro exI [of _ k]) simp
  next
    case False
    then have r: "flow_state (render e s) = emit Refresh (print_rows e 0 c)"
      by (simp add: render_def print_summary_def Let_def c_def)
    show ?thesis
      using False k(1,2,3,4) unfolding Rc
      by (intro exI [of _ k]) (simp add: r k(5) tc)
  qed
qed

paragraph \<open>The wait\<close>

lemma wait_key_kind [simp]:
  "is_Next (wait_key e s) \<longleftrightarrow>
     \<not> (0 < select_ret e \<and> (read_ret e \<noteq> 1 \<or> read_c e = CHR ''Q'' \<or> read_c e = CHR ''q''))"
  "is_Break (wait_key e s) \<longleftrightarrow>
     0 < select_ret e \<and> (read_ret e \<noteq> 1 \<or> read_c e = CHR ''Q'' \<or> read_c e = CHR ''q'')"
  by (auto simp: wait_key_def Let_def)

lemma wait_key_fields [simp]:
  "Run_once (flow_state (wait_key e s)) = Run_once s"
  "is_tty (flow_state (wait_key e s)) = is_tty s"
  "nr_slabs (flow_state (wait_key e s)) = nr_slabs s"
  "rc (flow_state (wait_key e s)) = rc s"
  by (simp_all add: wait_key_def Let_def)

lemma Sort_item_wait_key:
  "Sort_item (flow_state (wait_key e s)) =
     (if 0 < select_ret e \<and> read_ret e = 1 \<and> read_c e \<noteq> CHR ''Q'' \<and> read_c e \<noteq> CHR ''q''
      then set_sort_item (read_c e) else Sort_item s)"
  by (simp add: wait_key_def Let_def)

lemma Delay_wait_key:
  "Delay (flow_state (wait_key e s)) =
     (if Run_once s = 0 \<and> (SIGINT \<in> set (sigs e At_wait) \<or> SIGINT \<in> set (sigs e At_select))
      then 0 else Delay s)"
  by (auto simp: wait_key_def Let_def Delay_arrive)

lemma trace_wait_key:
  "trace (flow_state (wait_key e s)) =
     trace s @ Select (Delay (arrive e At_wait s)) # (if 0 < select_ret e then [Read] else [])"
  by (simp add: wait_key_def Let_def)

paragraph \<open>An interactive pass\<close>

lemma cycle_kind:
  assumes "Run_once s = 0"
  shows "is_Next (cycle e s) \<longleftrightarrow>
           0 \<le> fill_ret e \<and> sort_ret e \<and> 0 \<le> getchain_ret e \<and>
           \<not> (0 < select_ret e \<and> (read_ret e \<noteq> 1 \<or> read_c e = CHR ''Q'' \<or> read_c e = CHR ''q''))"
    and "is_Break (cycle e s) \<longleftrightarrow>
           fill_ret e < 0 \<or> \<not> sort_ret e \<or>
           0 \<le> getchain_ret e \<and> 0 < select_ret e \<and>
             (read_ret e \<noteq> 1 \<or> read_c e = CHR ''Q'' \<or> read_c e = CHR ''q'')"
  using assms by (auto simp: cycle_def flow.case_eq_if)

lemma cycle_fields:
  assumes "Run_once s = 0"
  shows "Run_once (flow_state (cycle e s)) = 0"
    and "is_tty (flow_state (cycle e s)) = is_tty s"
    and "nr_slabs (flow_state (cycle e s)) = fill_ret e"
    and "rc (flow_state (cycle e s)) =
           (if fill_ret e < 0 \<or> \<not> sort_ret e then EXIT_FAILURE else rc s)"
  using assms by (auto simp: cycle_def flow.case_eq_if)

lemma Sort_item_cycle:
  assumes "Run_once s = 0"
  shows "Sort_item (flow_state (cycle e s)) =
     (if 0 \<le> fill_ret e \<and> sort_ret e \<and> 0 \<le> getchain_ret e \<and> 0 < select_ret e \<and>
         read_ret e = 1 \<and> read_c e \<noteq> CHR ''Q'' \<and> read_c e \<noteq> CHR ''q''
      then set_sort_item (read_c e) else Sort_item s)"
  using assms by (auto simp: cycle_def flow.case_eq_if Sort_item_wait_key)

lemma Delay_cycle_Next:
  assumes "Run_once s = 0" and "is_Next (cycle e s)"
  shows "Delay (flow_state (cycle e s)) = (if \<exists>p. SIGINT \<in> set (sigs e p) then 0 else Delay s)"
proof -
  have ex: "(\<exists>p. SIGINT \<in> set (sigs e p)) \<longleftrightarrow>
      SIGINT \<in> set (sigs e At_fill) \<or> SIGINT \<in> set (sigs e At_sort) \<or>
      SIGINT \<in> set (sigs e At_render) \<or> SIGINT \<in> set (sigs e At_rows) \<or>
      SIGINT \<in> set (sigs e At_wait) \<or> SIGINT \<in> set (sigs e At_select) \<or>
      SIGINT \<in> set (sigs e At_while)"
    by (metis point.exhaust)
  from assms have k: "0 \<le> fill_ret e" "sort_ret e" "0 \<le> getchain_ret e"
    "\<not> (0 < select_ret e \<and> (read_ret e \<noteq> 1 \<or> read_c e = CHR ''Q'' \<or> read_c e = CHR ''q''))"
    by (simp_all add: cycle_kind)
  have "cycle e s = Next (arrive e At_while
      (flow_state (wait_key e (flow_state (render e (flow_state (fetch_sort e s)))))))"
    using assms(1) k by (simp add: cycle_def flow.case_eq_if)
  then show ?thesis
    unfolding ex using assms(1) k
    by (simp add: Delay_arrive Delay_wait_key Delay_render Delay_fetch_sort)
qed

lemma fetch_sort_state:
  "0 \<le> fill_ret e \<Longrightarrow> sort_ret e \<Longrightarrow>
   flow_state (fetch_sort e s) =
     emit (Chains_sort (fill_ret e) (Sort_item s))
       ((emit Chains_fill (arrive e At_sort (arrive e At_fill s)))\<lparr>nr_slabs := fill_ret e\<rparr>)"
  by (simp add: fetch_sort_def Let_def arrive_commute)

text \<open>
  The events of an interactive pass. \<open>k\<close> is where the row loop stopped, as in
  \<open>trace_render\<close>.
\<close>

lemma trace_cycle:
  assumes "Run_once s = 0"
  shows "\<exists>k. 0 \<le> k \<and> k \<le> max 0 (fill_ret e) \<and>
     (0 \<le> fill_ret e \<and> sort_ret e \<and> 0 \<le> getchain_ret e \<longrightarrow>
        min (uint (Rows (flow_state (render e (flow_state (fetch_sort e s))))) - 8) (fill_ret e) \<le> k \<and>
        ((\<forall>j. row_winch e j = []) \<longrightarrow>
           k = max 0 (min (uint (Rows (arrive e At_rows (arrive e At_render
                        (arrive e At_sort (arrive e At_fill s))))) - 8) (fill_ret e)))) \<and>
     trace (flow_state (cycle e s)) =
     trace s @ Chains_fill #
     (if fill_ret e < 0 then [Xwarn ''Unable to get slabinfo node data'']
      else Chains_sort (fill_ret e) (Sort_item s) #
       (if \<not> sort_ret e then [Xwarn ''Unable to sort slab nodes'']
        else
         (if old_rows s \<noteq> Rows (arrive e At_render (arrive e At_sort (arrive e At_fill s)))
          then [Resizeterm (Rows (arrive e At_render (arrive e At_sort (arrive e At_fill s))))
                           (Cols (arrive e At_render (arrive e At_sort (arrive e At_fill s))))]
          else []) @
         [Move, Slabs_getchain] @
         (if getchain_ret e < 0 then [Xerrx ''Error getting slab summary results'']
          else [Printw Summary_lines, Attron, Printw Headings_line, Attroff] @
               map (\<lambda>j. Printw (Details_line j)) [0..k - 1] @
               [Refresh,
                Select (if SIGINT \<in> set (sigs e At_fill) \<or> SIGINT \<in> set (sigs e At_sort) \<or>
                           SIGINT \<in> set (sigs e At_render) \<or> SIGINT \<in> set (sigs e At_rows) \<or>
                           SIGINT \<in> set (sigs e At_wait)
                        then 0 else Delay s)] @
               (if 0 < select_ret e then [Read] else []))))"
proof -
  let ?f = "flow_state (fetch_sort e s)"
  let ?r = "flow_state (render e ?f)"
  let ?R1 = "Rows (arrive e At_render (arrive e At_sort (arrive e At_fill s)))"
  let ?C1 = "Cols (arrive e At_render (arrive e At_sort (arrive e At_fill s)))"
  let ?R2 = "Rows (arrive e At_rows (arrive e At_render (arrive e At_sort (arrive e At_fill s))))"
  have f: "Run_once ?f = 0" "old_rows ?f = old_rows s" "nr_slabs ?f = fill_ret e"
    using assms by simp_all
  from trace_render [OF f(1), of e] obtain k where k: "0 \<le> k" "k \<le> max 0 (fill_ret e)"
    "0 \<le> getchain_ret e \<longrightarrow> min (uint (Rows ?r) - 8) (fill_ret e) \<le> k"
    "(\<forall>j. row_winch e j = []) \<longrightarrow>
       k = max 0 (min (uint (Rows (arrive e At_rows (arrive e At_render ?f))) - 8) (fill_ret e))"
    "trace ?r = trace ?f @
       (if old_rows s \<noteq> Rows (arrive e At_render ?f)
        then [Resizeterm (Rows (arrive e At_render ?f)) (Cols (arrive e At_render ?f))] else []) @
       [Move, Slabs_getchain] @
       (if getchain_ret e < 0 then [Xerrx ''Error getting slab summary results'']
        else [Printw Summary_lines, Attron, Printw Headings_line, Attroff] @
             map (\<lambda>j. Printw (Details_line j)) [0..k - 1] @ [Refresh])"
    unfolding f by blast
  show ?thesis
  proof (cases "0 \<le> fill_ret e \<and> sort_ret e")
    case False
    then have "\<not> is_Next (fetch_sort e s)" by simp
    then have "cycle e s = fetch_sort e s"
      by (cases "fetch_sort e s") (simp_all add: cycle_def)
    with False show ?thesis
      by (intro exI [of _ 0]) (auto simp: trace_fetch_sort)
  next
    case True
    have g: "Rows (arrive e At_render ?f) = ?R1" "Cols (arrive e At_render ?f) = ?C1"
      "Rows (arrive e At_rows (arrive e At_render ?f)) = ?R2"
      using True by (simp_all add: fetch_sort_state arrive_commute)
    note k4 = k(4) [unfolded g]
    note tr = k(5) [unfolded g]
    show ?thesis
    proof (cases "0 \<le> getchain_ret e")
      case False
      then have "\<not> is_Next (render e ?f)" and "\<not> is_Break (render e ?f)"
        by simp_all
      then have "cycle e s = render e ?f"
        using assms True by (cases "render e ?f") (simp_all add: cycle_def flow.case_eq_if)
      with True False k(1,2) k4 show ?thesis
        by (intro exI [of _ k]) (simp add: tr trace_fetch_sort)
    next
      case g0: True
      have d: "Delay (arrive e At_wait ?r) =
          (if SIGINT \<in> set (sigs e At_fill) \<or> SIGINT \<in> set (sigs e At_sort) \<or>
              SIGINT \<in> set (sigs e At_render) \<or> SIGINT \<in> set (sigs e At_rows) \<or>
              SIGINT \<in> set (sigs e At_wait)
           then 0 else Delay s)"
        using assms True g0 by (simp add: Delay_arrive Delay_render Delay_fetch_sort)
      have "trace (flow_state (cycle e s)) = trace (flow_state (wait_key e ?r))"
        using assms True g0 by (simp add: cycle_def flow.case_eq_if)
      with True g0 k(1,2,3) k4 show ?thesis
        by (intro exI [of _ k]) (simp add: trace_wait_key d tr trace_fetch_sort)
    qed
  qed
qed

text \<open>The same, as a rule for taking \<open>k\<close> and the events of a pass.\<close>

lemma pass_shape [consumes 1, case_names shape]:
  assumes "Run_once s = 0"
  obtains k where "0 \<le> k" and "k \<le> max 0 (fill_ret e)"
    and "(0 \<le> fill_ret e \<and> sort_ret e \<and> 0 \<le> getchain_ret e \<longrightarrow>
        min (uint (Rows (flow_state (render e (flow_state (fetch_sort e s))))) - 8) (fill_ret e) \<le> k \<and>
        ((\<forall>j. row_winch e j = []) \<longrightarrow>
           k = max 0 (min (uint (Rows (arrive e At_rows (arrive e At_render
                        (arrive e At_sort (arrive e At_fill s))))) - 8) (fill_ret e))))"
    and "trace (flow_state (cycle e s)) =
     trace s @ Chains_fill #
     (if fill_ret e < 0 then [Xwarn ''Unable to get slabinfo node data'']
      else Chains_sort (fill_ret e) (Sort_item s) #
       (if \<not> sort_ret e then [Xwarn ''Unable to sort slab nodes'']
        else
         (if old_rows s \<noteq> Rows (arrive e At_render (arrive e At_sort (arrive e At_fill s)))
          then [Resizeterm (Rows (arrive e At_render (arrive e At_sort (arrive e At_fill s))))
                           (Cols (arrive e At_render (arrive e At_sort (arrive e At_fill s))))]
          else []) @
         [Move, Slabs_getchain] @
         (if getchain_ret e < 0 then [Xerrx ''Error getting slab summary results'']
          else [Printw Summary_lines, Attron, Printw Headings_line, Attroff] @
               map (\<lambda>j. Printw (Details_line j)) [0..k - 1] @
               [Refresh,
                Select (if SIGINT \<in> set (sigs e At_fill) \<or> SIGINT \<in> set (sigs e At_sort) \<or>
                           SIGINT \<in> set (sigs e At_render) \<or> SIGINT \<in> set (sigs e At_rows) \<or>
                           SIGINT \<in> set (sigs e At_wait)
                        then 0 else Delay s)] @
               (if 0 < select_ret e then [Read] else []))))"
  using trace_cycle [OF assms, of e] by blast

paragraph \<open>The geometry keeps more than ten rows\<close>

lemma Rows_arrive: "10 < uint (Rows s) \<Longrightarrow> 10 < uint (Rows (arrive e p s))"
  by (simp add: arrive_def Rows_deliver)

lemma Rows_fetch_sort:
  "10 < uint (Rows s) \<Longrightarrow> 10 < uint (Rows (flow_state (fetch_sort e s)))"
  by (auto simp: fetch_sort_def Let_def Rows_arrive)

lemma Rows_render:
  "10 < uint (Rows s) \<Longrightarrow> 10 < uint (Rows (flow_state (render e s)))"
  by (auto simp: render_def print_summary_def print_headings_def Let_def Rows_arrive
      Rows_print_rows)

lemma Rows_wait_key:
  "10 < uint (Rows s) \<Longrightarrow> 10 < uint (Rows (flow_state (wait_key e s)))"
  by (auto simp: wait_key_def Let_def Rows_arrive)

lemma Rows_cycle:
  assumes "Run_once s = 0" and "10 < uint (Rows s)"
  shows "10 < uint (Rows (flow_state (cycle e s)))"
  using assms
  by (auto simp: cycle_def flow.case_eq_if Rows_arrive Rows_wait_key Rows_render Rows_fetch_sort)

lemma Rows_init_screen:
  "Run_once s = 0 \<Longrightarrow> 10 < uint (Rows (init_screen env s))"
  by (auto simp: init_screen_def Let_def term_resize_def)

paragraph \<open>Traces, the loop and the samples\<close>

lemma new_events_append: "trace s' = trace s @ evs \<Longrightarrow> new_events s s' = evs"
  by (simp add: new_events_def)

lemma sample_state:
  "init_screen tty_start initial =
     initial\<lparr>Cols := 80, Rows := 24, is_tty := 1,
       trace := [Tcgetattr, Initscr, Resizeterm 24 80, Install_SIGWINCH, Install_SIGINT]\<rparr>"
  by (simp add: init_screen_def tty_start_def initial_def term_resize_def emit_def Let_def)

lemma trace_cycle_new:
  assumes "Run_once s = 0"
  shows "trace (flow_state (cycle e s)) = trace s @ new_events s (flow_state (cycle e s))"
  using assms
proof (cases rule: pass_shape [where e = e])
  case (shape k)
  show ?thesis
    by (simp add: new_events_def shape(4))
qed

lemma fetches_cycle:
  assumes "Run_once s = 0"
  shows "fetches (flow_state (cycle e s)) = Suc (fetches s)"
  using assms
proof (cases rule: pass_shape [where e = e])
  case (shape k)
  show ?thesis
    by (simp add: fetches_def shape(4) o_def)
qed

lemma do_while_step:
  assumes "is_Next (cycle e s)" and "Delay (flow_state (cycle e s)) \<noteq> 0"
  shows "do_while (e # es) s = do_while es (flow_state (cycle e s))"
  using assms by (cases "cycle e s") simp_all

lemma do_while_stop:
  assumes "\<not> is_Next (cycle e s) \<or> Delay (flow_state (cycle e s)) = 0"
  shows "do_while (e # es) s = Some (cycle e s)"
  using assms by (cases "cycle e s") simp_all

declare do_while.simps(2) [simp del]

lemma sample_env [simp]:
  "fill_ret (timeout_pass n) = n" "sort_ret (timeout_pass n)" "getchain_ret (timeout_pass n) = 0"
  "select_ret (timeout_pass n) = 0" "sigs (timeout_pass n) p = []"
  "row_winch (timeout_pass n) i = []" "row_winch (key_pass n c) i = []"
  "row_winch (sigint_pass n) i = []"
  "fill_ret (key_pass n c) = n" "sort_ret (key_pass n c)" "getchain_ret (key_pass n c) = 0"
  "select_ret (key_pass n c) = 1" "read_ret (key_pass n c) = 1" "read_c (key_pass n c) = c"
  "sigs (key_pass n c) p = []"
  "fill_ret (sigint_pass n) = n" "sort_ret (sigint_pass n)" "getchain_ret (sigint_pass n) = 0"
  "select_ret (sigint_pass n) = 0"
  "sigs (sigint_pass n) p = (if p = At_select then [SIGINT] else [])"
  by (simp_all add: timeout_pass_def key_pass_def sigint_pass_def quiet_def calm_def)

lemma initial_fields [simp]:
  "Cols initial = 0" "Rows initial = 0" "Delay initial = 3" "Run_once initial = 0"
  "Sort_item initial = PROCPS_SLABNODE_OBJS" "is_tty initial = 0" "nr_slabs initial = 0"
  "rc initial = 0" "old_rows initial = 0" "trace initial = []"
  by (simp_all add: initial_def DEFAULT_SORT_def EXIT_SUCCESS_def)

lemma sample_state_fields [simp]:
  "Run_once (init_screen tty_start initial) = 0"
  "Delay (init_screen tty_start initial) = 3"
  "Rows (init_screen tty_start initial) = 24"
  "Cols (init_screen tty_start initial) = 80"
  "old_rows (init_screen tty_start initial) = 0"
  "Sort_item (init_screen tty_start initial) = PROCPS_SLABNODE_OBJS"
  "rc (init_screen tty_start initial) = 0"
  "is_tty (init_screen tty_start initial) = 1"
  "trace (init_screen tty_start initial)
     = [Tcgetattr, Initscr, Resizeterm 24 80, Install_SIGWINCH, Install_SIGINT]"
  unfolding sample_state by (simp_all add: initial_def DEFAULT_SORT_def EXIT_SUCCESS_def)

subsection \<open>Option parsing\<close>

lemma parse_opt_Delay:
  assumes "parse_opt f x s = Inr s'" and "Run_once s = 0 \<longrightarrow> 1 \<le> Delay s"
  shows "Run_once s' = 0 \<longrightarrow> 1 \<le> Delay s'"
  using assms by (cases x) (auto simp: usage_def Let_def split: option.splits if_splits)

lemma parse_opts_Delay:
  assumes "parse_opts f xs s = Inr s'" and "Run_once s = 0 \<longrightarrow> 1 \<le> Delay s"
  shows "Run_once s' = 0 \<longrightarrow> 1 \<le> Delay s'"
  using assms
proof (induction xs arbitrary: s)
  case Nil
  then show ?case by simp
next
  case (Cons x xs)
  then show ?case
    by (auto split: sum.splits dest: parse_opt_Delay)
qed

lemma interactive_Delay_positive:
  assumes "parse_opts f xs initial = Inr s" and "Run_once s = 0"
  shows "1 \<le> Delay s"
  using parse_opts_Delay [OF assms(1)] assms(2) by (simp add: initial_def)

lemma parse_opt_trace:
  "parse_opt f x s = Inr s' \<Longrightarrow> trace s' = trace s"
  by (cases x) (auto simp: usage_def Let_def split: option.splits if_splits)

lemma parse_opts_trace:
  "parse_opts f xs s = Inr s' \<Longrightarrow> trace s' = trace s"
proof (induction xs arbitrary: s)
  case Nil
  then show ?case by simp
next
  case (Cons x xs)
  then show ?case
    by (auto split: sum.splits dest: parse_opt_trace)
qed

lemma parse_opt_rc:
  "parse_opt f x s = Inr s' \<Longrightarrow> rc s' = rc s"
  by (cases x) (auto simp: usage_def Let_def split: option.splits if_splits)

lemma parse_opts_rc:
  "parse_opts f xs s = Inr s' \<Longrightarrow> rc s' = rc s"
proof (induction xs arbitrary: s)
  case Nil
  then show ?case by simp
next
  case (Cons x xs)
  then show ?case
    by (auto split: sum.splits dest: parse_opt_rc)
qed

paragraph \<open>Sample keys\<close>

lemma recognized_x: "\<not> recognized CHR ''x''"
  by (simp add: recognized_iff)

lemma set_sort_item_n: "set_sort_item CHR ''n'' = PROCPS_SLABNODE_NAME"
  by (simp add: set_sort_item_def tolower_def)

lemma set_sort_item_x: "set_sort_item CHR ''x'' = PROCPS_SLABNODE_OBJS"
  by (simp add: set_sort_item_def tolower_def DEFAULT_SORT_def)

paragraph \<open>A one-shot pass\<close>

lemma print_summary_kind [simp]:
  "is_Next (print_summary e s) \<longleftrightarrow> 0 \<le> getchain_ret e"
  "is_Break (print_summary e s) \<longleftrightarrow> False"
  "getchain_ret e < 0 \<Longrightarrow> exit_status (print_summary e s) = EXIT_FAILURE"
  by (auto simp: print_summary_def Let_def)

lemma print_summary_fields [simp]:
  "Run_once (flow_state (print_summary e s)) = Run_once s"
  "nr_slabs (flow_state (print_summary e s)) = nr_slabs s"
  "rc (flow_state (print_summary e s)) = rc s"
  "trace (flow_state (print_summary e s)) =
     trace s @ Slabs_getchain #
       (if getchain_ret e < 0 then [Xerrx ''Error getting slab summary results'']
        else [if Run_once s \<noteq> 0 then Printf Summary_lines else Printw Summary_lines])"
  by (simp_all add: print_summary_def Let_def)

lemma arrive_once [simp]: "Run_once s \<noteq> 0 \<Longrightarrow> arrive e p s = s"
  by (simp add: arrive_def)

lemma cycle_once_kind:
  assumes "Run_once s \<noteq> 0"
  shows "\<not> is_Next (cycle e s)"
    and "is_Exit (cycle e s) \<longleftrightarrow> 0 \<le> fill_ret e \<and> sort_ret e \<and> getchain_ret e < 0"
    and "is_Exit (cycle e s) \<Longrightarrow> exit_status (cycle e s) = EXIT_FAILURE"
  using assms by (auto simp: cycle_def flow.case_eq_if)

lemma cycle_once_rc:
  assumes "Run_once s \<noteq> 0"
  shows "rc (flow_state (cycle e s)) = (if fill_ret e < 0 \<or> \<not> sort_ret e then EXIT_FAILURE else rc s)"
    and "Run_once (flow_state (cycle e s)) = Run_once s"
  using assms by (auto simp: cycle_def flow.case_eq_if print_headings_def)

lemma trace_cycle_once:
  assumes "Run_once s \<noteq> 0"
  shows "trace (flow_state (cycle e s)) =
     trace s @ Chains_fill #
     (if fill_ret e < 0 then [Xwarn ''Unable to get slabinfo node data'']
      else Chains_sort (fill_ret e) (Sort_item s) #
       (if \<not> sort_ret e then [Xwarn ''Unable to sort slab nodes'']
        else Slabs_getchain #
         (if getchain_ret e < 0 then [Xerrx ''Error getting slab summary results'']
          else Printf Summary_lines # Printf Headings_line #
               map (\<lambda>k. Printf (Details_line k)) [0..fill_ret e - 1])))"
  using assms
  by (auto simp: cycle_def flow.case_eq_if print_headings_def trace_print_all trace_fetch_sort)

lemma parse_opt_once:
  "parse_opt f x s = Inr s' \<Longrightarrow> x = Opt_o \<or> Run_once s \<noteq> 0 \<Longrightarrow> Run_once s' \<noteq> 0"
  by (cases x) (auto simp: usage_def Let_def split: option.splits if_splits)

lemma parse_opts_once:
  "parse_opts f xs s = Inr s' \<Longrightarrow> Opt_o \<in> set xs \<or> Run_once s \<noteq> 0 \<Longrightarrow> Run_once s' \<noteq> 0"
proof (induction xs arbitrary: s)
  case Nil
  then show ?case by simp
next
  case (Cons x xs)
  from Cons.prems(1) obtain s1 where s1: "parse_opt f x s = Inr s1" "parse_opts f xs s1 = Inr s'"
    by (auto split: sum.splits)
  show ?case
  proof (cases "x = Opt_o \<or> Run_once s \<noteq> 0")
    case True
    with s1(1) have "Run_once s1 \<noteq> 0" by (rule parse_opt_once)
    with Cons.IH [OF s1(2)] show ?thesis by simp
  next
    case False
    with Cons.prems(2) have "Opt_o \<in> set xs" by auto
    with Cons.IH [OF s1(2)] show ?thesis by simp
  qed
qed

subsection \<open>The whole run\<close>

lemma main_loop:
  assumes "parse_opts f (opts env) initial = Inr s0"
    and "0 \<le> slabinfo_new_ret env" and "chains_alloc_ret env"
  shows "main f env es =
     (case do_while es (init_screen env (emit Chains_alloc (emit Slabinfo_new s0))) of
        None \<Rightarrow> None
      | Some r \<Rightarrow> Some (if is_Exit r then (exit_status r, flow_state r)
                       else (rc (finish (flow_state r)), finish (flow_state r))))"
  using assms by (auto simp: main_def Let_def split: option.splits flow.splits)

lemma finish_once:
  "Run_once s \<noteq> 0 \<Longrightarrow> finish s = emit Slabinfo_unref s"
  by (simp add: finish_def)

lemma parse_opt_default:
  assumes "parse_opt f x s = Inr s'" and "x \<noteq> Opt_o" and "\<forall>a. x \<noteq> Opt_d a"
  shows "Delay s' = Delay s \<and> Run_once s' = Run_once s"
  using assms by (cases x) (auto simp: usage_def)

lemma parse_opts_default:
  assumes "parse_opts f xs s = Inr s'" and "\<forall>x\<in>set xs. x \<noteq> Opt_o \<and> (\<forall>a. x \<noteq> Opt_d a)"
  shows "Delay s' = Delay s \<and> Run_once s' = Run_once s"
  using assms
proof (induction xs arbitrary: s)
  case Nil
  then show ?case by simp
next
  case (Cons x xs)
  from Cons.prems(1) obtain s1 where s1: "parse_opt f x s = Inr s1" "parse_opts f xs s1 = Inr s'"
    by (auto split: sum.splits)
  from Cons.prems(2) have "x \<noteq> Opt_o" "\<forall>a. x \<noteq> Opt_d a" by simp_all
  with s1(1) have "Delay s1 = Delay s \<and> Run_once s1 = Run_once s"
    by (rule parse_opt_default)
  moreover from Cons.prems(2) have "Delay s' = Delay s1 \<and> Run_once s' = Run_once s1"
    by (intro Cons.IH [OF s1(2)]) simp
  ultimately show ?case by simp
qed

lemma init_screen_fields [simp]:
  "Run_once (init_screen env s) = Run_once s"
  "Delay (init_screen env s) = Delay s"
  "Sort_item (init_screen env s) = Sort_item s"
  "rc (init_screen env s) = rc s"
  by (simp_all add: init_screen_def Let_def term_resize_def)

lemma trace_init_screen:
  "Run_once s = 0 \<Longrightarrow>
   trace (init_screen env s) = trace s @
     (if isatty_ret env \<noteq> 0
      then Tcgetattr # (if tcgetattr_ret env = - 1 then [Xwarn ''terminal setting retrieval''] else [])
      else []) @
     [Initscr, Resizeterm (Rows (init_screen env s)) (Cols (init_screen env s)),
      Install_SIGWINCH, Install_SIGINT]"
  by (simp add: init_screen_def Let_def term_resize_def)

lemma select_cycle:
  assumes "Run_once s = 0" and "\<forall>p. SIGINT \<notin> set (sigs e p)"
    and "Select d \<in> set (trace (flow_state (cycle e s)))"
  shows "Select d \<in> set (trace s) \<or> d = Delay s"
  using assms(1)
proof (cases rule: pass_shape [where e = e])
  case (shape k)
  from assms(2,3) show ?thesis
    unfolding shape(4) by (auto split: if_splits)
qed

lemma select_do_while:
  assumes "Run_once s = 0" and "\<forall>e\<in>set es. \<forall>p. SIGINT \<notin> set (sigs e p)"
    and "do_while es s = Some r"
    and "Select d \<in> set (trace (flow_state r))"
  shows "Select d \<in> set (trace s) \<or> d = Delay s"
  using assms
proof (induction es arbitrary: s)
  case Nil
  then show ?case by simp
next
  case (Cons e es)
  let ?s' = "flow_state (cycle e s)"
  from Cons.prems(2) have q: "\<forall>p. SIGINT \<notin> set (sigs e p)" by simp
  note sc = select_cycle [OF Cons.prems(1) q]
  show ?case
  proof (cases "is_Next (cycle e s) \<and> Delay ?s' \<noteq> 0")
    case True
    then have "do_while (e # es) s = do_while es ?s'"
      by (intro do_while_step) simp_all
    with Cons.prems(3) have d: "do_while es ?s' = Some r" by simp
    have r: "Run_once ?s' = 0"
      using Cons.prems(1) by (simp add: cycle_fields)
    have dl: "Delay ?s' = Delay s"
      using True Cons.prems(1) q by (simp add: Delay_cycle_Next)
    from Cons.prems(2) have "\<forall>e\<in>set es. \<forall>p. SIGINT \<notin> set (sigs e p)" by simp
    from Cons.IH [OF r this d Cons.prems(4)] dl sc show ?thesis
      by auto
  next
    case False
    then have "do_while (e # es) s = Some (cycle e s)"
      by (intro do_while_stop) simp
    with Cons.prems(3) have "r = cycle e s" by simp
    with Cons.prems(4) sc show ?thesis by simp
  qed
qed

lemma trace_finish:
  "trace (finish s) = trace s @
     (if Run_once s = 0 then (if is_tty s \<noteq> 0 then [Tcsetattr] else []) @ [Endwin] else []) @
     [Slabinfo_unref]"
  by (simp add: finish_def Let_def)

lemma rc_finish [simp]: "rc (finish s) = rc s"
  by (simp add: finish_def Let_def)

lemma set_sort_item_first_n: "set_sort_item (first_byte ''n'') = PROCPS_SLABNODE_NAME"
  by (simp add: first_byte_def set_sort_item_n)

lemma tty_loop_entry:
  "init_screen tty_start (emit Chains_alloc (emit Slabinfo_new initial)) =
     initial\<lparr>Cols := 80, Rows := 24, is_tty := 1,
       trace := [Slabinfo_new, Chains_alloc, Tcgetattr, Initscr, Resizeterm 24 80,
                 Install_SIGWINCH, Install_SIGINT]\<rparr>"
  by (simp add: init_screen_def tty_start_def initial_def term_resize_def emit_def Let_def)

paragraph \<open>A window that is resized\<close>

lemma big_state:
  "init_screen big_start initial =
     initial\<lparr>Cols := 132, Rows := 50, is_tty := 1,
       trace := [Tcgetattr, Initscr, Resizeterm 50 132, Install_SIGWINCH, Install_SIGINT]\<rparr>"
  by (simp add: init_screen_def big_start_def tty_start_def initial_def term_resize_def emit_def
      Let_def)

lemma resize_env [simp]:
  "fill_ret (shrink_pass n) = n" "sort_ret (shrink_pass n)" "getchain_ret (shrink_pass n) = 0"
  "select_ret (shrink_pass n) = 0" "sigs (shrink_pass n) p = []"
  "row_winch (shrink_pass n) i = (if i = 4 then [resized_to 11] else [])"
  "fill_ret (winch_pass n) = n" "sort_ret (winch_pass n)" "getchain_ret (winch_pass n) = 0"
  "select_ret (winch_pass n) = 0"
  "sigs (winch_pass n) p = (if p = At_sort then [SIGWINCH (resized_to 40)] else [])"
  "row_winch (winch_pass n) i = []"
  by (simp_all add: shrink_pass_def winch_pass_def timeout_pass_def quiet_def calm_def)

lemma term_resize_to [simp]:
  "10 < uint r \<Longrightarrow> term_resize (resized_to r) s = s\<lparr>Cols := 132, Rows := r\<rparr>"
  by (simp add: term_resize_def resized_to_def)

lemma shrink_loop:
  assumes "Run_once s = 0" and "Rows s = 50" and "nr_slabs s = 150"
  shows "print_rows (shrink_pass 150) 0 s =
     s\<lparr>Cols := 132, Rows := 11,
       trace := trace s @ map (\<lambda>j. Printw (Details_line j)) [0, 1, 2, 3, 4]\<rparr>"
  using assms
  by (simp add: print_rows.simps [of _ 0] print_rows.simps [of _ 1] print_rows.simps [of _ 2]
      print_rows.simps [of _ 3] print_rows.simps [of _ 4] print_rows.simps [of _ 5]
      print_details_def PRINT_line_def emit_def)


lemma big_state_fields [simp]:
  "Run_once (init_screen big_start initial) = 0"
  "Delay (init_screen big_start initial) = 3"
  "Rows (init_screen big_start initial) = 50"
  "Cols (init_screen big_start initial) = 132"
  "old_rows (init_screen big_start initial) = 0"
  "trace (init_screen big_start initial)
     = [Tcgetattr, Initscr, Resizeterm 50 132, Install_SIGWINCH, Install_SIGINT]"
  unfolding big_state by simp_all

lemma quiet_arrive: "sigs e p = [] \<Longrightarrow> arrive e p s = s"
  by (simp add: arrive_def)

lemma shrink_fetch:
  "flow_state (fetch_sort (shrink_pass 150) (init_screen big_start initial)) =
     emit (Chains_sort 150 PROCPS_SLABNODE_OBJS)
       ((emit Chains_fill (init_screen big_start initial))\<lparr>nr_slabs := 150\<rparr>)"
  by (simp add: fetch_sort_state quiet_arrive)

lemma shrink_frame:
  "Rows (flow_state (render (shrink_pass 150)
       (flow_state (fetch_sort (shrink_pass 150) (init_screen big_start initial))))) = 11"
  "trace (flow_state (render (shrink_pass 150)
       (flow_state (fetch_sort (shrink_pass 150) (init_screen big_start initial))))) =
     [Tcgetattr, Initscr, Resizeterm 50 132, Install_SIGWINCH, Install_SIGINT,
      Chains_fill, Chains_sort 150 PROCPS_SLABNODE_OBJS, Resizeterm 50 132, Move,
      Slabs_getchain, Printw Summary_lines, Attron, Printw Headings_line, Attroff,
      Printw (Details_line 0), Printw (Details_line 1), Printw (Details_line 2),
      Printw (Details_line 3), Printw (Details_line 4), Refresh]"
  by (simp_all add: render_def print_summary_def Let_def quiet_arrive shrink_fetch shrink_loop
      print_headings_def)

subsection \<open>The rows of a frame\<close>

text \<open>
  C5, as the specification states it, does not hold. A window 50 rows high and a fetch
  that reports 150 caches; after row 4 of the frame is written, the window is made 11
  rows high and \<^verbatim>\<open>term_resize\<close> runs. The next test of line 349 reads the new
  \<^verbatim>\<open>Rows\<close> and ends the loop: the pass has written five rows, which is neither the
  42 that the \<^verbatim>\<open>Rows\<close> before the loop gives nor the 3 that the \<^verbatim>\<open>Rows\<close> after
  it gives.
\<close>

theorem resize_between_rows:
  "Rows (init_screen big_start initial) = 50 \<and>
   fill_ret (shrink_pass 150) = 150 \<and>
   filter is_line (new_events (init_screen big_start initial)
       (flow_state (cycle (shrink_pass 150) (init_screen big_start initial)))) =
     [Printw Summary_lines, Printw Headings_line, Printw (Details_line 0),
      Printw (Details_line 1), Printw (Details_line 2), Printw (Details_line 3),
      Printw (Details_line 4)] \<and>
   Rows (flow_state (cycle (shrink_pass 150) (init_screen big_start initial))) = 11 \<and>
   min (uint (50 :: 16 word) - 8) (fill_ret (shrink_pass 150)) = 42 \<and>
   min (uint (11 :: 16 word) - 8) (fill_ret (shrink_pass 150)) = 3"
proof -
  let ?S = "init_screen big_start initial"
  let ?e = "shrink_pass 150"
  let ?f = "flow_state (fetch_sort ?e ?S)"
  have c: "cycle ?e ?S = Next (flow_state (wait_key ?e (flow_state (render ?e ?f))))"
    by (simp add: cycle_def flow.case_eq_if quiet_arrive)
  have t: "trace (flow_state (cycle ?e ?S)) = trace ?S @
      [Chains_fill, Chains_sort 150 PROCPS_SLABNODE_OBJS, Resizeterm 50 132, Move,
       Slabs_getchain, Printw Summary_lines, Attron, Printw Headings_line, Attroff,
       Printw (Details_line 0), Printw (Details_line 1), Printw (Details_line 2),
       Printw (Details_line 3), Printw (Details_line 4), Refresh, Select 3]"
    by (simp add: c trace_wait_key shrink_frame quiet_arrive Delay_render Delay_fetch_sort)
  have R: "Rows (flow_state (cycle ?e ?S)) = 11"
    by (simp add: c wait_key_def Let_def quiet_arrive shrink_frame)
  show ?thesis
    by (simp add: new_events_def t R)
qed

text \<open>
  C5, amended. In an interactive pass whose fetch, sort and summary succeed, the lines
  written are the summary, the header, and then the rows 0, 1, ... below some \<open>k\<close>,
  the number of data rows. \<open>k\<close> is never more than the count that the fetch of this
  pass reported, and never less than the smaller of \<^verbatim>\<open>Rows - 8\<close> and that count for
  the \<^verbatim>\<open>Rows\<close> with which the frame is flushed. When no window-size signal arrives
  while the rows are written, \<open>k\<close> is exactly the smaller of \<^verbatim>\<open>Rows - 8\<close> and the
  count, for the \<^verbatim>\<open>Rows\<close> that the loop of line 349 starts with (after the signals
  that arrived earlier in the pass). \<^verbatim>\<open>Rows\<close> exceeds 10 throughout interactive
  mode: \<open>Rows_init_screen\<close> establishes that before the loop, and a pass keeps it.
\<close>

theorem rows_rendered:
  assumes "Run_once s = 0" and "10 < uint (Rows s)"
    and "0 \<le> fill_ret e" and "sort_ret e" and "0 \<le> getchain_ret e"
  shows "let R = Rows (arrive e At_rows (arrive e At_render (arrive e At_sort (arrive e At_fill s))));
             R' = Rows (flow_state (render e (flow_state (fetch_sort e s))));
             evs = new_events s (flow_state (cycle e s));
             k = int (length (filter is_details evs))
         in filter is_line evs =
              Printw Summary_lines # Printw Headings_line #
              map (\<lambda>j. Printw (Details_line j)) [0..k - 1] \<and>
            min (uint R' - 8) (fill_ret e) \<le> k \<and> k \<le> fill_ret e \<and>
            ((\<forall>j. row_winch e j = []) \<longrightarrow> k = min (uint R - 8) (fill_ret e)) \<and>
            10 < uint R \<and> 10 < uint R' \<and> 10 < uint (Rows (flow_state (cycle e s)))"
  using assms(1)
proof (cases rule: pass_shape [where e = e])
  case (shape k)
  let ?R = "Rows (arrive e At_rows (arrive e At_render (arrive e At_sort (arrive e At_fill s))))"
  let ?R' = "Rows (flow_state (render e (flow_state (fetch_sort e s))))"
  let ?evs = "new_events s (flow_state (cycle e s))"
  have R: "10 < uint ?R"
    using assms(2) by (intro Rows_arrive)
  have R': "10 < uint ?R'"
    using assms(2) by (intro Rows_render Rows_fetch_sort)
  have d: "filter is_details ?evs = map (\<lambda>j. Printw (Details_line j)) [0..k - 1]"
    and l: "filter is_line ?evs =
      Printw Summary_lines # Printw Headings_line # map (\<lambda>j. Printw (Details_line j)) [0..k - 1]"
    using assms(3-5) by (simp_all add: new_events_def shape(4) o_def)
  from d shape(1) have k: "int (length (filter is_details ?evs)) = k"
    by simp
  from shape(2,3) assms(3-5) R have b: "min (uint ?R' - 8) (fill_ret e) \<le> k" "k \<le> fill_ret e"
    "(\<forall>j. row_winch e j = []) \<longrightarrow> k = min (uint ?R - 8) (fill_ret e)"
    by auto
  show ?thesis
    using l b R R' Rows_cycle [OF assms(1,2), of e]
    by (simp add: Let_def k)
qed

theorem rows_rendered_witness:
  "Run_once (init_screen tty_start initial) = 0 \<and>
   10 < uint (Rows (init_screen tty_start initial)) \<and>
   int (length (filter is_details (new_events (init_screen tty_start initial)
     (flow_state (cycle (timeout_pass 100) (init_screen tty_start initial)))))) = 16 \<and>
   int (length (filter is_details (new_events (init_screen tty_start initial)
     (flow_state (cycle (winch_pass 100) (init_screen tty_start initial)))))) = 32 \<and>
   3 \<le> int (length (filter is_details (new_events (init_screen big_start initial)
     (flow_state (cycle (shrink_pass 150) (init_screen big_start initial)))))) \<and>
   int (length (filter is_details (new_events (init_screen big_start initial)
     (flow_state (cycle (shrink_pass 150) (init_screen big_start initial)))))) \<le> 150"
proof -
  let ?T = "init_screen tty_start initial"
  let ?B = "init_screen big_start initial"
  have T: "Run_once ?T = 0" "10 < uint (Rows ?T)"
    by simp_all
  have B: "Run_once ?B = 0" "10 < uint (Rows ?B)"
    by simp_all
  have e: "0 \<le> fill_ret (timeout_pass 100)" "sort_ret (timeout_pass 100)"
    "0 \<le> getchain_ret (timeout_pass 100)"
    "0 \<le> fill_ret (winch_pass 100)" "sort_ret (winch_pass 100)"
    "0 \<le> getchain_ret (winch_pass 100)"
    "0 \<le> fill_ret (shrink_pass 150)" "sort_ret (shrink_pass 150)"
    "0 \<le> getchain_ret (shrink_pass 150)"
    by simp_all
  have R1: "Rows (arrive (timeout_pass 100) At_rows (arrive (timeout_pass 100) At_render
      (arrive (timeout_pass 100) At_sort (arrive (timeout_pass 100) At_fill ?T)))) = 24"
    by (simp add: quiet_arrive)
  have R2: "Rows (arrive (winch_pass 100) At_rows (arrive (winch_pass 100) At_render
      (arrive (winch_pass 100) At_sort (arrive (winch_pass 100) At_fill ?T)))) = 40"
    by (simp add: arrive_def)
  have R3: "Rows (flow_state (render (shrink_pass 150)
      (flow_state (fetch_sort (shrink_pass 150) ?B)))) = 11"
    by (simp add: shrink_frame)
  from rows_rendered [OF T e(1-3)] rows_rendered [OF T e(4-6)] rows_rendered [OF B e(7-9)] T
  show ?thesis
    by (simp add: Let_def R1 R2 R3)
qed

subsection \<open>The interrupt\<close>

text \<open>
  C6. \<^verbatim>\<open>sigint_handler\<close> changes \<^verbatim>\<open>Delay\<close> to zero and nothing else. Whether an
  interactive pass falls through, breaks or exits does not depend on \<^verbatim>\<open>Delay\<close>: the
  body only hands it to \<^verbatim>\<open>select\<close>, and the test is the one of line 365. So when
  the interrupt arrives anywhere in a pass, the loop ends with that pass, whatever
  passes could follow, and the pass has made one fetch and no other.
\<close>

theorem sigint_ends_loop:
  "sigint_handler s = s\<lparr>Delay := 0\<rparr> \<and>
   (Run_once s = 0 \<longrightarrow>
      is_Next (cycle e (s\<lparr>Delay := d\<rparr>)) = is_Next (cycle e s) \<and>
      is_Break (cycle e (s\<lparr>Delay := d\<rparr>)) = is_Break (cycle e s) \<and>
      is_Exit (cycle e (s\<lparr>Delay := d\<rparr>)) = is_Exit (cycle e s)) \<and>
   (Run_once s = 0 \<and> (\<exists>p. SIGINT \<in> set (sigs e p)) \<longrightarrow>
      do_while (e # es) s = Some (cycle e s) \<and>
      fetches (flow_state (cycle e s)) = Suc (fetches s))"
proof (intro conjI impI)
  show "sigint_handler s = s\<lparr>Delay := 0\<rparr>"
    by (simp add: sigint_handler_def)
next
  assume r: "Run_once s = 0"
  then have r': "Run_once (s\<lparr>Delay := d\<rparr>) = 0" by simp
  show n: "is_Next (cycle e (s\<lparr>Delay := d\<rparr>)) = is_Next (cycle e s)"
    by (simp only: cycle_kind(1) [OF r] cycle_kind(1) [OF r'])
  show b: "is_Break (cycle e (s\<lparr>Delay := d\<rparr>)) = is_Break (cycle e s)"
    by (simp only: cycle_kind(2) [OF r] cycle_kind(2) [OF r'])
  from n b show "is_Exit (cycle e (s\<lparr>Delay := d\<rparr>)) = is_Exit (cycle e s)"
    by (metis flow.exhaust_disc flow.distinct_disc)
next
  assume a: "Run_once s = 0 \<and> (\<exists>p. SIGINT \<in> set (sigs e p))"
  show "do_while (e # es) s = Some (cycle e s)"
  proof (rule do_while_stop)
    show "\<not> is_Next (cycle e s) \<or> Delay (flow_state (cycle e s)) = 0"
      using a Delay_cycle_Next [of s e] by auto
  qed
  from a show "fetches (flow_state (cycle e s)) = Suc (fetches s)"
    by (simp add: fetches_cycle)
qed

theorem sigint_ends_loop_witness:
  "Run_once (init_screen tty_start initial) = 0 \<and>
   SIGINT \<in> set (sigs (sigint_pass 2) At_select) \<and>
   is_Next (cycle (sigint_pass 2) (init_screen tty_start initial)) \<and>
   do_while [sigint_pass 2, timeout_pass 2] (init_screen tty_start initial)
     = Some (cycle (sigint_pass 2) (init_screen tty_start initial)) \<and>
   fetches (flow_state (cycle (sigint_pass 2) (init_screen tty_start initial))) = 1 \<and>
   do_while [timeout_pass 2, timeout_pass 2] (init_screen tty_start initial) = None"
proof -
  let ?s = "init_screen tty_start initial"
  have r: "Run_once ?s = 0" by simp
  have i: "SIGINT \<in> set (sigs (sigint_pass 2) At_select)" by simp
  then have x: "\<exists>p. SIGINT \<in> set (sigs (sigint_pass 2) p)" ..
  have f0: "fetches ?s = 0"
    by (simp add: fetches_def)
  have n: "is_Next (cycle (sigint_pass 2) ?s)"
    by (simp add: cycle_kind)
  let ?t = "flow_state (cycle (timeout_pass 2) ?s)"
  have t1: "is_Next (cycle (timeout_pass 2) ?s)" "Delay ?t = 3" "Run_once ?t = 0"
    by (simp_all add: cycle_kind cycle_fields Delay_cycle_Next)
  then have t2: "is_Next (cycle (timeout_pass 2) ?t)"
    "Delay (flow_state (cycle (timeout_pass 2) ?t)) = 3"
    by (simp_all add: cycle_kind cycle_fields Delay_cycle_Next)
  have "do_while [timeout_pass 2, timeout_pass 2] ?s = do_while [timeout_pass 2] ?t"
    using t1 by (intro do_while_step) simp_all
  also have "\<dots> = do_while [] (flow_state (cycle (timeout_pass 2) ?t))"
    using t2 by (intro do_while_step) simp_all
  finally have quietly: "do_while [timeout_pass 2, timeout_pass 2] ?s = None"
    by simp
  from sigint_ends_loop [of ?s "sigint_pass 2" 3 "[timeout_pass 2]"] r x f0 n i quietly
  show ?thesis by simp
qed

subsection \<open>Keystrokes\<close>

text \<open>
  C7. In an interactive pass that reaches the wait (fetch, sort and summary succeeded):
  when \<^verbatim>\<open>select\<close> reports input and the \<^verbatim>\<open>read\<close> does not return one byte (failure
  or end of stream), or the byte is \<^verbatim>\<open>q\<close> or \<^verbatim>\<open>Q\<close>, the pass breaks and the loop
  ends with it, the sort field and the exit status untouched. Any other byte does not
  break: the sort field becomes \<^verbatim>\<open>set_sort_item\<close> of the byte and the pass reaches the
  test of line 365, where the loop goes on to the next pass as long as \<^verbatim>\<open>Delay\<close> is
  not zero, which in interactive mode (\<open>interactive_Delay_positive\<close>) is unless the
  interrupt arrived. Without input the pass falls through as well.
\<close>

theorem keystroke_exit:
  assumes "Run_once s = 0" and "0 \<le> fill_ret e" and "sort_ret e" and "0 \<le> getchain_ret e"
  shows "(0 < select_ret e \<and> (read_ret e \<noteq> 1 \<or> read_c e = CHR ''q'' \<or> read_c e = CHR ''Q'') \<longrightarrow>
            is_Break (cycle e s) \<and> do_while (e # es) s = Some (cycle e s) \<and>
            Sort_item (flow_state (cycle e s)) = Sort_item s \<and>
            rc (flow_state (cycle e s)) = rc s) \<and>
         (0 < select_ret e \<and> read_ret e = 1 \<and> read_c e \<noteq> CHR ''q'' \<and> read_c e \<noteq> CHR ''Q'' \<longrightarrow>
            is_Next (cycle e s) \<and>
            Sort_item (flow_state (cycle e s)) = set_sort_item (read_c e) \<and>
            (Delay s \<noteq> 0 \<and> (\<forall>p. SIGINT \<notin> set (sigs e p)) \<longrightarrow>
               do_while (e # es) s = do_while es (flow_state (cycle e s)))) \<and>
         (select_ret e \<le> 0 \<longrightarrow>
            is_Next (cycle e s) \<and> Sort_item (flow_state (cycle e s)) = Sort_item s)"
proof (intro conjI impI)
  assume q: "0 < select_ret e \<and> (read_ret e \<noteq> 1 \<or> read_c e = CHR ''q'' \<or> read_c e = CHR ''Q'')"
  with assms show b: "is_Break (cycle e s)"
    by (auto simp: cycle_kind)
  then have "\<not> is_Next (cycle e s)"
    by (cases "cycle e s") simp_all
  then show "do_while (e # es) s = Some (cycle e s)"
    by (intro do_while_stop disjI1)
  from assms q show "Sort_item (flow_state (cycle e s)) = Sort_item s"
    by (auto simp: Sort_item_cycle)
  from assms show "rc (flow_state (cycle e s)) = rc s"
    by (simp add: cycle_fields)
next
  assume k: "0 < select_ret e \<and> read_ret e = 1 \<and> read_c e \<noteq> CHR ''q'' \<and> read_c e \<noteq> CHR ''Q''"
  with assms show n: "is_Next (cycle e s)"
    by (simp add: cycle_kind)
  from assms k show "Sort_item (flow_state (cycle e s)) = set_sort_item (read_c e)"
    by (simp add: Sort_item_cycle)
  assume "Delay s \<noteq> 0 \<and> (\<forall>p. SIGINT \<notin> set (sigs e p))"
  with assms(1) n have "Delay (flow_state (cycle e s)) \<noteq> 0"
    by (simp add: Delay_cycle_Next)
  with n show "do_while (e # es) s = do_while es (flow_state (cycle e s))"
    by (rule do_while_step)
next
  assume "select_ret e \<le> 0"
  with assms show "is_Next (cycle e s)" and "Sort_item (flow_state (cycle e s)) = Sort_item s"
    by (simp_all add: cycle_kind Sort_item_cycle)
qed

lemma set_sort_item_u: "set_sort_item CHR ''u'' = PROCPS_SLABNODE_USE"
  by (simp add: set_sort_item_def tolower_def)

theorem keystroke_exit_witness:
  "Run_once (init_screen tty_start initial) = 0 \<and>
   is_Break (cycle (key_pass 2 CHR ''q'') (init_screen tty_start initial)) \<and>
   do_while [key_pass 2 CHR ''q'', timeout_pass 2] (init_screen tty_start initial)
     = Some (cycle (key_pass 2 CHR ''q'') (init_screen tty_start initial)) \<and>
   is_Next (cycle (key_pass 2 CHR ''u'') (init_screen tty_start initial)) \<and>
   Sort_item (flow_state (cycle (key_pass 2 CHR ''u'') (init_screen tty_start initial)))
     = PROCPS_SLABNODE_USE \<and>
   do_while [key_pass 2 CHR ''u'', key_pass 2 CHR ''q''] (init_screen tty_start initial)
     = Some (cycle (key_pass 2 CHR ''q'')
         (flow_state (cycle (key_pass 2 CHR ''u'') (init_screen tty_start initial)))) \<and>
   is_Next (cycle (timeout_pass 2) (init_screen tty_start initial))"
proof -
  let ?s = "init_screen tty_start initial"
  let ?u = "flow_state (cycle (key_pass 2 CHR ''u'') ?s)"
  have u: "Run_once ?u = 0"
    by (simp add: cycle_fields)
  note q = keystroke_exit [of ?s "key_pass 2 CHR ''q''" "[timeout_pass 2]"]
  note k = keystroke_exit [of ?s "key_pass 2 CHR ''u''" "[key_pass 2 CHR ''q'']"]
  note q' = keystroke_exit [of ?u "key_pass 2 CHR ''q''" "[]"]
  note t = keystroke_exit [of ?s "timeout_pass 2" "[]"]
  from q k q' t u show ?thesis
    by (simp add: set_sort_item_u)
qed

subsection \<open>An unrecognized sort character\<close>

text \<open>
  C1, as the specification states it, does not hold: an unrecognized sort character
  does not leave the sort field as it was. After \<^verbatim>\<open>-s n\<close> the field is the name; a
  second \<^verbatim>\<open>-s x\<close>, or the key \<^verbatim>\<open>x\<close> typed in the loop, makes it the object count.
\<close>

theorem unrecognized_key_changes_sort:
  "\<not> recognized CHR ''x'' \<and>
   parse_opt sample_strtol (Opt_s ''n'') initial = Inr (initial\<lparr>Sort_item := PROCPS_SLABNODE_NAME\<rparr>) \<and>
   parse_opt sample_strtol (Opt_s ''x'') (initial\<lparr>Sort_item := PROCPS_SLABNODE_NAME\<rparr>)
     = Inr (initial\<lparr>Sort_item := PROCPS_SLABNODE_OBJS\<rparr>) \<and>
   Sort_item (init_screen tty_start (initial\<lparr>Sort_item := PROCPS_SLABNODE_NAME\<rparr>))
     = PROCPS_SLABNODE_NAME \<and>
   Sort_item (flow_state (cycle (key_pass 2 CHR ''x'')
       (init_screen tty_start (initial\<lparr>Sort_item := PROCPS_SLABNODE_NAME\<rparr>))))
     = PROCPS_SLABNODE_OBJS"
proof -
  let ?s = "init_screen tty_start (initial\<lparr>Sort_item := PROCPS_SLABNODE_NAME\<rparr>)"
  have r: "Run_once ?s = 0" and n: "Sort_item ?s = PROCPS_SLABNODE_NAME"
    by (simp_all add: init_screen_def Let_def term_resize_def initial_def)
  have "Sort_item (flow_state (cycle (key_pass 2 CHR ''x'') ?s)) = PROCPS_SLABNODE_OBJS"
    by (simp add: Sort_item_cycle [OF r] set_sort_item_x)
  with n show ?thesis
    by (simp add: recognized_x first_byte_def set_sort_item_n set_sort_item_x)
qed

text \<open>
  C1, amended. Lines 179 and 362 store what \<^verbatim>\<open>set_sort_item\<close> returns without a
  test, and \<^verbatim>\<open>set_sort_item\<close> returns \<^verbatim>\<open>DEFAULT_SORT\<close> for a byte it does not know
  (the comment above it says so). So an unrecognized sort character, given with
  \<^verbatim>\<open>-s\<close> or typed in the loop (other than the quit key), sets the sort field to the
  default, whatever the field was before.
\<close>

theorem unrecognized_key_resets_sort:
  "(\<not> recognized (first_byte optarg) \<longrightarrow>
      parse_opt strtol_or_err (Opt_s optarg) s = Inr (s\<lparr>Sort_item := DEFAULT_SORT\<rparr>)) \<and>
   (\<not> recognized (read_c e) \<and> read_c e \<noteq> CHR ''q'' \<and> read_c e \<noteq> CHR ''Q'' \<and>
    Run_once s = 0 \<and> 0 \<le> fill_ret e \<and> sort_ret e \<and> 0 \<le> getchain_ret e \<and>
    0 < select_ret e \<and> read_ret e = 1 \<longrightarrow>
      is_Next (cycle e s) \<and> Sort_item (flow_state (cycle e s)) = DEFAULT_SORT)"
  by (simp add: set_sort_item_unrecognized cycle_kind Sort_item_cycle)

theorem unrecognized_key_resets_sort_witness:
  "\<not> recognized (first_byte ''x'') \<and>
   parse_opt sample_strtol (Opt_s ''x'') (initial\<lparr>Sort_item := PROCPS_SLABNODE_NAME\<rparr>)
     = Inr (initial\<lparr>Sort_item := PROCPS_SLABNODE_OBJS\<rparr>) \<and>
   \<not> recognized (read_c (key_pass 2 CHR ''x'')) \<and>
   Sort_item (flow_state (cycle (key_pass 2 CHR ''x'') (init_screen tty_start initial)))
     = PROCPS_SLABNODE_OBJS"
  using unrecognized_key_resets_sort [of "''x''" sample_strtol
      "initial\<lparr>Sort_item := PROCPS_SLABNODE_NAME\<rparr>" "key_pass 2 CHR ''x''"]
    unrecognized_key_resets_sort [of "''x''" sample_strtol
      "init_screen tty_start initial" "key_pass 2 CHR ''x''"]
  by (simp add: recognized_x first_byte_def DEFAULT_SORT_def)

subsection \<open>One-shot mode\<close>

text \<open>
  C9. With \<^verbatim>\<open>-o\<close> among accepted options and the collector opened, the program makes
  one pass and ends, whatever passes could follow: the final state has one fetch. When
  fetch, sort and summary succeed it exits with status 0 after printing the summary,
  the header and one row per cache reported; with zero caches reported that is the
  summary and the header and no row. When the fetch, the sort or the summary fails it
  ends with \<^verbatim>\<open>EXIT_FAILURE\<close> after that one fetch, and prints no line.
\<close>

theorem one_shot:
  assumes "Opt_o \<in> set (opts env)"
    and "parse_opts strtol_or_err (opts env) initial = Inr s0"
    and "0 \<le> slabinfo_new_ret env" and "chains_alloc_ret env"
  shows "main strtol_or_err env (e # es) = main strtol_or_err env [e] \<and>
    (\<exists>n st. main strtol_or_err env [e] = Some (n, st) \<and> fetches st = 1 \<and>
       (0 \<le> fill_ret e \<and> sort_ret e \<and> 0 \<le> getchain_ret e \<longrightarrow>
          n = 0 \<and>
          filter is_line (trace st) =
            Printf Summary_lines # Printf Headings_line #
            map (\<lambda>k. Printf (Details_line k)) [0..fill_ret e - 1]) \<and>
       (fill_ret e < 0 \<or> \<not> sort_ret e \<or> getchain_ret e < 0 \<longrightarrow>
          n = EXIT_FAILURE \<and> filter is_line (trace st) = []) \<and>
       (fill_ret e = 0 \<and> sort_ret e \<and> 0 \<le> getchain_ret e \<longrightarrow>
          trace st = [Slabinfo_new, Chains_alloc, Chains_fill, Chains_sort 0 (Sort_item s0),
                      Slabs_getchain, Printf Summary_lines, Printf Headings_line,
                      Slabinfo_unref]))"
proof -
  define s1 where "s1 = emit Chains_alloc (emit Slabinfo_new s0)"
  let ?c = "cycle e s1"
  have r0: "Run_once s0 \<noteq> 0"
    using parse_opts_once [OF assms(2)] assms(1) by simp
  then have r1: "Run_once s1 \<noteq> 0"
    by (simp add: s1_def)
  have t1: "trace s1 = [Slabinfo_new, Chains_alloc]"
    using parse_opts_trace [OF assms(2)] by (simp add: s1_def initial_def)
  have c1: "rc s1 = 0" "Sort_item s1 = Sort_item s0"
    using parse_opts_rc [OF assms(2)] by (simp_all add: s1_def initial_def EXIT_SUCCESS_def)
  have i1: "init_screen env s1 = s1"
    using r1 by (simp add: init_screen_def)
  have dw: "do_while (e # xs) s1 = Some ?c" for xs
    using cycle_once_kind(1) [OF r1] by (intro do_while_stop disjI1)
  have m: "main strtol_or_err env (e # xs) =
      Some (if is_Exit ?c then (exit_status ?c, flow_state ?c)
            else (rc (finish (flow_state ?c)), finish (flow_state ?c)))" for xs
    using main_loop [OF assms(2-4), of "e # xs"] by (simp add: s1_def [symmetric] i1 dw)
  have f: "finish (flow_state ?c) = emit Slabinfo_unref (flow_state ?c)"
    using r1 by (simp add: finish_once cycle_once_rc)
  note tr = trace_cycle_once [OF r1, of e]
  note k = cycle_once_kind [OF r1, of e]
  have same: "main strtol_or_err env (e # es) = main strtol_or_err env [e]"
    by (simp only: m)
  show ?thesis
  proof (cases "is_Exit ?c")
    case True
    with k have "0 \<le> fill_ret e" "sort_ret e" "getchain_ret e < 0" "exit_status ?c = EXIT_FAILURE"
      by simp_all
    with True same show ?thesis
      by (simp add: m [of "[]"] fetches_def tr t1)
  next
    case False
    with k have nx: "\<not> (0 \<le> fill_ret e \<and> sort_ret e \<and> getchain_ret e < 0)"
      by simp
    have ok: "trace (flow_state ?c) = [Slabinfo_new, Chains_alloc, Chains_fill,
        Chains_sort 0 (Sort_item s0), Slabs_getchain, Printf Summary_lines, Printf Headings_line]"
      if "fill_ret e = 0" and "sort_ret e" and "0 \<le> getchain_ret e"
      using that by (simp add: tr t1 c1)
    from False same nx show ?thesis
      by (auto simp: m [of "[]"] f fetches_def tr t1 c1 cycle_once_rc [OF r1] o_def)
  qed
qed

theorem one_shot_witness:
  "Opt_o \<in> set (opts (tty_start\<lparr>opts := [Opt_o]\<rparr>)) \<and>
   parse_opts sample_strtol (opts (tty_start\<lparr>opts := [Opt_o]\<rparr>)) initial
     = Inr (initial\<lparr>Run_once := 1, Delay := 0\<rparr>) \<and>
   map_option (\<lambda>(n, st). (n, trace st))
     (main sample_strtol (tty_start\<lparr>opts := [Opt_o]\<rparr>) [timeout_pass 0, timeout_pass 5])
     = Some (0, [Slabinfo_new, Chains_alloc, Chains_fill, Chains_sort 0 PROCPS_SLABNODE_OBJS,
                 Slabs_getchain, Printf Summary_lines, Printf Headings_line, Slabinfo_unref]) \<and>
   map_option fst
     (main sample_strtol (tty_start\<lparr>opts := [Opt_o]\<rparr>) [(timeout_pass 0)\<lparr>fill_ret := - 1\<rparr>])
     = Some 1"
proof -
  let ?env = "tty_start\<lparr>opts := [Opt_o]\<rparr>"
  have o: "Opt_o \<in> set (opts ?env)"
    by simp
  have p: "parse_opts sample_strtol (opts ?env) initial = Inr (initial\<lparr>Run_once := 1, Delay := 0\<rparr>)"
    by simp
  have c: "0 \<le> slabinfo_new_ret ?env" "chains_alloc_ret ?env"
    by (simp_all add: tty_start_def)
  note a = one_shot [OF o p c, of "timeout_pass 0" "[timeout_pass 5]"]
  note b = one_shot [OF o p c, of "(timeout_pass 0)\<lparr>fill_ret := - 1\<rparr>" "[]"]
  have "map_option (\<lambda>(n, st). (n, trace st))
     (main sample_strtol ?env [timeout_pass 0, timeout_pass 5])
     = Some (0, [Slabinfo_new, Chains_alloc, Chains_fill, Chains_sort 0 PROCPS_SLABNODE_OBJS,
                 Slabs_getchain, Printf Summary_lines, Printf Headings_line, Slabinfo_unref])"
    using a by (auto simp: initial_def DEFAULT_SORT_def)
  moreover have "map_option fst (main sample_strtol ?env [(timeout_pass 0)\<lparr>fill_ret := - 1\<rparr>]) = Some 1"
    using b by (auto simp: EXIT_FAILURE_def)
  ultimately show ?thesis
    using o p by simp
qed

subsection \<open>The default delay\<close>

text \<open>
  C10. When the accepted options hold neither \<^verbatim>\<open>-d\<close> nor \<^verbatim>\<open>-o\<close>, \<^verbatim>\<open>Delay\<close> is 3
  after \<^verbatim>\<open>parse_opts\<close>, the mode is interactive, and \<^verbatim>\<open>Delay\<close> is 3 where the loop
  is entered. Every pass that starts with \<^verbatim>\<open>Delay\<close> 3, reaches the wait and sees no
  interrupt gives \<^verbatim>\<open>select\<close> a timeout of 3 seconds and leaves \<^verbatim>\<open>Delay\<close> at 3; so in
  a run that ended and saw no interrupt, every wait had the timeout 3.
\<close>

theorem default_delay:
  assumes "\<forall>x\<in>set (opts env). x \<noteq> Opt_o \<and> (\<forall>a. x \<noteq> Opt_d a)"
    and "parse_opts strtol_or_err (opts env) initial = Inr s0"
  shows "Delay s0 = 3 \<and> Run_once s0 = 0 \<and>
     Delay (init_screen env (emit Chains_alloc (emit Slabinfo_new s0))) = 3 \<and>
     ((\<forall>e\<in>set es. \<forall>p. SIGINT \<notin> set (sigs e p)) \<and> main strtol_or_err env es = Some (n, st) \<longrightarrow>
        (\<forall>d. Select d \<in> set (trace st) \<longrightarrow> d = 3)) \<and>
     (Run_once s = 0 \<and> Delay s = 3 \<and> (\<forall>p. SIGINT \<notin> set (sigs e p)) \<and>
      0 \<le> fill_ret e \<and> sort_ret e \<and> 0 \<le> getchain_ret e \<longrightarrow>
        filter is_select (new_events s (flow_state (cycle e s))) = [Select 3] \<and>
        (is_Next (cycle e s) \<longrightarrow> Delay (flow_state (cycle e s)) = 3))"
proof (intro conjI impI)
  from parse_opts_default [OF assms(2,1)]
  show d0: "Delay s0 = 3" and r0: "Run_once s0 = 0"
    by (simp_all add: initial_def)
  let ?L = "init_screen env (emit Chains_alloc (emit Slabinfo_new s0))"
  from d0 show dL: "Delay ?L = 3" by simp
  have t0: "trace s0 = []"
    using parse_opts_trace [OF assms(2)] by (simp add: initial_def)
  have rL: "Run_once ?L = 0"
    using r0 by simp
  have tL: "Select d \<notin> set (trace ?L)" for d
    using r0 by (auto simp: trace_init_screen t0)
  {
    assume a: "(\<forall>e\<in>set es. \<forall>p. SIGINT \<notin> set (sigs e p)) \<and> main strtol_or_err env es = Some (n, st)"
    show "\<forall>d. Select d \<in> set (trace st) \<longrightarrow> d = 3"
    proof (intro allI impI)
      fix d
      assume sel: "Select d \<in> set (trace st)"
      show "d = 3"
      proof (cases "0 \<le> slabinfo_new_ret env \<and> chains_alloc_ret env")
        case False
        with a sel t0 show ?thesis
          by (auto simp: main_def assms(2) Let_def split: if_splits)
      next
        case True
        then have m: "main strtol_or_err env es =
            (case do_while es ?L of None \<Rightarrow> None
             | Some r \<Rightarrow> Some (if is_Exit r then (exit_status r, flow_state r)
                              else (rc (finish (flow_state r)), finish (flow_state r))))"
          by (intro main_loop [OF assms(2)]) simp_all
        with a obtain r where r: "do_while es ?L = Some r"
          and st: "st = (if is_Exit r then flow_state r else finish (flow_state r))"
          by (auto split: option.splits if_splits)
        from st sel have "Select d \<in> set (trace (flow_state r))"
          by (auto simp: trace_finish split: if_splits)
        with select_do_while [OF rL _ r] a have "Select d \<in> set (trace ?L) \<or> d = Delay ?L"
          by blast
        with tL dL show ?thesis by simp
      qed
    qed
  }
  {
    assume b: "Run_once s = 0 \<and> Delay s = 3 \<and> (\<forall>p. SIGINT \<notin> set (sigs e p)) \<and>
      0 \<le> fill_ret e \<and> sort_ret e \<and> 0 \<le> getchain_ret e"
    then have r: "Run_once s = 0" by simp
    from r show "filter is_select (new_events s (flow_state (cycle e s))) = [Select 3]"
    proof (cases rule: pass_shape [where e = e])
      case (shape k)
      from b show ?thesis
        by (simp add: new_events_def shape(4) o_def)
    qed
    assume "is_Next (cycle e s)"
    with b show "Delay (flow_state (cycle e s)) = 3"
      by (simp add: Delay_cycle_Next)
  }
qed

theorem default_delay_witness:
  "parse_opts sample_strtol (opts (tty_start\<lparr>opts := [Opt_s ''n'']\<rparr>)) initial
     = Inr (initial\<lparr>Sort_item := PROCPS_SLABNODE_NAME\<rparr>) \<and>
   map_option (\<lambda>(n, st). (n, filter is_select (trace st)))
     (main sample_strtol (tty_start\<lparr>opts := [Opt_s ''n'']\<rparr>) [timeout_pass 2, key_pass 2 CHR ''q''])
     = Some (0, [Select 3, Select 3])"
proof -
  let ?env = "tty_start\<lparr>opts := [Opt_s ''n'']\<rparr>"
  let ?s0 = "initial\<lparr>Sort_item := PROCPS_SLABNODE_NAME\<rparr>"
  let ?L = "init_screen ?env (emit Chains_alloc (emit Slabinfo_new ?s0))"
  let ?s1 = "flow_state (cycle (timeout_pass 2) ?L)"
  let ?s2 = "flow_state (cycle (key_pass 2 CHR ''q'') ?s1)"
  have o: "\<forall>x\<in>set (opts ?env). x \<noteq> Opt_o \<and> (\<forall>a. x \<noteq> Opt_d a)"
    by simp
  have p: "parse_opts sample_strtol (opts ?env) initial = Inr ?s0"
    by (simp add: set_sort_item_first_n)
  have c: "0 \<le> slabinfo_new_ret ?env" "chains_alloc_ret ?env"
    by (simp_all add: tty_start_def)
  have rL: "Run_once ?L = 0" and tL: "filter is_select (trace ?L) = []"
    by (simp_all add: trace_init_screen)
  have r1: "Run_once ?s1 = 0"
    by (simp add: cycle_fields)
  have q: "\<forall>p. SIGINT \<notin> set (sigs (timeout_pass 2) p)"
    "\<forall>p. SIGINT \<notin> set (sigs (key_pass 2 CHR ''q'') p)"
    by simp_all
  note d = default_delay [OF o p, of "[]" 0 initial ?L "timeout_pass 2"]
  then have dL: "Delay ?L = 3" by simp
  have n1: "is_Next (cycle (timeout_pass 2) ?L)"
    by (simp add: cycle_kind)
  with d rL q have d1: "Delay ?s1 = 3"
    and e1: "filter is_select (new_events ?L ?s1) = [Select 3]"
    by simp_all
  note d' = default_delay [OF o p, of "[]" 0 initial ?s1 "key_pass 2 CHR ''q''"]
  with r1 d1 q have e2: "filter is_select (new_events ?s1 ?s2) = [Select 3]"
    by simp
  have t1: "trace ?s1 = trace ?L @ new_events ?L ?s1"
    by (simp add: trace_cycle_new [OF rL])
  have t2: "trace ?s2 = trace ?s1 @ new_events ?s1 ?s2"
    by (simp add: trace_cycle_new [OF r1])
  have sel: "filter is_select (trace ?s2) = [Select 3, Select 3]"
    by (simp add: t2 t1 e1 e2 tL)
  have b2: "is_Break (cycle (key_pass 2 CHR ''q'') ?s1)" and rc2: "rc ?s2 = 0"
    by (simp_all add: cycle_kind r1 cycle_fields)
  then have x2: "\<not> is_Exit (cycle (key_pass 2 CHR ''q'') ?s1)"
    "\<not> is_Next (cycle (key_pass 2 CHR ''q'') ?s1)"
    by (cases "cycle (key_pass 2 CHR ''q'') ?s1"; simp)+
  have "do_while [timeout_pass 2, key_pass 2 CHR ''q''] ?L = do_while [key_pass 2 CHR ''q''] ?s1"
    using n1 d1 by (intro do_while_step) simp_all
  also have "\<dots> = Some (cycle (key_pass 2 CHR ''q'') ?s1)"
    using x2 by (intro do_while_stop) simp
  finally have "main sample_strtol ?env [timeout_pass 2, key_pass 2 CHR ''q'']
      = Some (rc (finish ?s2), finish ?s2)"
    using x2 by (simp add: main_loop [OF p c])
  then show ?thesis
    using p by (simp add: trace_finish sel rc2)
qed

subsection \<open>Fatal errors and the terminal\<close>

text \<open>
  C2 fails on the code. On a terminal, in interactive mode, a pass whose fetch and sort
  succeed and whose \<^verbatim>\<open>procps_slabs_getchain\<close> fails ends inside \<^verbatim>\<open>print_summary\<close>,
  in \<^verbatim>\<open>xerrx\<close>: the process exits with status 1 and the trace ends there, with no
  \<^verbatim>\<open>tcsetattr\<close> and no \<^verbatim>\<open>endwin\<close> after the \<^verbatim>\<open>tcgetattr\<close> and \<^verbatim>\<open>initscr\<close> of the
  start. A failed fetch in the same place takes the \<^verbatim>\<open>break\<close> of line 323 and does
  restore the terminal before it returns 1.
\<close>

theorem summary_failure_skips_restore:
  "map_option (\<lambda>(n, st). (n, trace st))
     (main sample_strtol tty_start [(timeout_pass 2)\<lparr>getchain_ret := - 1\<rparr>])
     = Some (1, [Slabinfo_new, Chains_alloc, Tcgetattr, Initscr, Resizeterm 24 80,
                 Install_SIGWINCH, Install_SIGINT, Chains_fill,
                 Chains_sort 2 PROCPS_SLABNODE_OBJS, Resizeterm 24 80, Move, Slabs_getchain,
                 Xerrx ''Error getting slab summary results'']) \<and>
   map_option (\<lambda>(n, st). (n, trace st))
     (main sample_strtol tty_start [(timeout_pass 2)\<lparr>fill_ret := - 1\<rparr>])
     = Some (1, [Slabinfo_new, Chains_alloc, Tcgetattr, Initscr, Resizeterm 24 80,
                 Install_SIGWINCH, Install_SIGINT, Chains_fill,
                 Xwarn ''Unable to get slabinfo node data'', Tcsetattr, Endwin,
                 Slabinfo_unref])"
proof -
  let ?L = "init_screen tty_start (emit Chains_alloc (emit Slabinfo_new initial))"
  let ?bad = "(timeout_pass 2)\<lparr>getchain_ret := - 1\<rparr>"
  let ?nofill = "(timeout_pass 2)\<lparr>fill_ret := - 1\<rparr>"
  have p: "parse_opts sample_strtol (opts tty_start) initial = Inr initial"
    by (simp add: tty_start_def)
  have c: "0 \<le> slabinfo_new_ret tty_start" "chains_alloc_ret tty_start"
    by (simp_all add: tty_start_def)
  have L: "Run_once ?L = 0" "is_tty ?L = 1" "old_rows ?L = 0" "rc ?L = 0"
    "Sort_item ?L = PROCPS_SLABNODE_OBJS"
    "trace ?L = [Slabinfo_new, Chains_alloc, Tcgetattr, Initscr, Resizeterm 24 80,
                 Install_SIGWINCH, Install_SIGINT]"
    unfolding tty_loop_entry by simp_all
  have a: "arrive e p s = s" if "sigs e = quiet" for e p s
    using that by (simp add: arrive_def quiet_def)
  have g: "Rows ?L = 24" "Cols ?L = 80"
    unfolding tty_loop_entry by simp_all
  have q: "sigs ?bad = quiet" "sigs ?nofill = quiet"
    by (simp_all add: timeout_pass_def)
  have k1: "is_Exit (cycle ?bad ?L)" "exit_status (cycle ?bad ?L) = EXIT_FAILURE"
    using L(1) by (auto simp: cycle_def flow.case_eq_if)
  have k2: "is_Break (cycle ?nofill ?L)"
    using L(1) by (simp add: cycle_kind)
  then have k2': "\<not> is_Exit (cycle ?nofill ?L)" "\<not> is_Next (cycle ?nofill ?L)"
    by (cases "cycle ?nofill ?L"; simp)+
  from k1 have k1': "\<not> is_Next (cycle ?bad ?L)"
    by (cases "cycle ?bad ?L"; simp)
  have d1: "do_while [?bad] ?L = Some (cycle ?bad ?L)"
    using k1' by (intro do_while_stop) simp
  have d2: "do_while [?nofill] ?L = Some (cycle ?nofill ?L)"
    using k2' by (intro do_while_stop) simp
  have t1: "trace (flow_state (cycle ?bad ?L)) =
      trace ?L @ [Chains_fill, Chains_sort 2 PROCPS_SLABNODE_OBJS, Resizeterm 24 80, Move,
        Slabs_getchain, Xerrx ''Error getting slab summary results'']"
    using L(1)
  proof (cases rule: pass_shape [where e = ?bad])
    case (shape k)
    show ?thesis
      by (simp add: shape(4) L(3,5) a [OF q(1)] g)
  qed
  have t2: "trace (flow_state (cycle ?nofill ?L)) =
      trace ?L @ [Chains_fill, Xwarn ''Unable to get slabinfo node data'']"
    using L(1)
  proof (cases rule: pass_shape [where e = ?nofill])
    case (shape k)
    show ?thesis
      by (simp add: shape(4))
  qed
  have f2: "Run_once (flow_state (cycle ?nofill ?L)) = 0"
    "is_tty (flow_state (cycle ?nofill ?L)) = 1"
    "rc (flow_state (cycle ?nofill ?L)) = 1"
    using L(1,2) by (simp_all add: cycle_fields EXIT_FAILURE_def)
  show ?thesis
    using k1 k2'
    by (simp add: main_loop [OF p c] d1 d2 t1 t2 L(6) trace_finish f2 EXIT_FAILURE_def)
qed

end
